theory Spec2Isabelle
  imports Main "HOL-Library.Word" "HOL-Library.Sublist"
begin

section \<open>Prompt Mixer: strings, separators and the option-token regular expressions\<close>

text \<open>
  A JavaScript string is a sequence of UTF-16 code units. The regular expressions of
  \<^verbatim>\<open>app.js\<close> carry no \<^verbatim>\<open>u\<close> flag, so they work on code units as well.
  \<open>js\<close> turns an ASCII literal into such a sequence.
\<close>

type_synonym jsstring = "16 word list"

definition js :: "string \<Rightarrow> jsstring" where
  "js s = map of_char s"

definition comma :: "16 word" where
  "comma = 0x2C"

definition blank :: "16 word" where
  "blank = 0x20"

text \<open>
  The class \<^verbatim>\<open>\s\<close> and the characters removed by \<^verbatim>\<open>String.prototype.trim\<close> are
  the same set: the ECMAScript WhiteSpace and LineTerminator code points.
\<close>

definition is_space :: "16 word \<Rightarrow> bool" where
  "is_space c \<longleftrightarrow>
     c \<in> {0x09, 0x0A, 0x0B, 0x0C, 0x0D, 0x20, 0xA0, 0x1680, 0x2028, 0x2029,
          0x202F, 0x205F, 0x3000, 0xFEFF}
     \<or> (0x2000 \<le> c \<and> c \<le> 0x200A)"

text \<open>\<^verbatim>\<open>s.trim()\<close>\<close>

definition trim :: "jsstring \<Rightarrow> jsstring" where
  "trim s = rev (dropWhile is_space (rev (dropWhile is_space s)))"

text \<open>
  \<^verbatim>\<open>escapeRegExp\<close> puts a backslash before every character that is special in a pattern,
  so the escaped option matches exactly the option's own code units. \<open>lit opt s\<close> matches
  the option at the head of \<open>s\<close> and returns what follows it.
\<close>

fun lit :: "jsstring \<Rightarrow> jsstring \<Rightarrow> jsstring option" where
  "lit [] s = Some s"
| "lit (p # ps) [] = None"
| "lit (p # ps) (c # cs) = (if p = c then lit ps cs else None)"

text \<open>
  \<^verbatim>\<open>tokenRegex(opt)\<close> is \<^verbatim>\<open>(?:^|,\s*)OPT(?=\s*(?:,|$))\<close>.

  \<open>ahead\<close> is the lookahead \<^verbatim>\<open>\s*(?:,|$)\<close>; \<open>opt_ahead\<close> is the option followed by the
  lookahead; \<open>ws_opt_ahead\<close> is \<^verbatim>\<open>\s*\<close> (any number of white-space characters, by
  backtracking) followed by \<open>opt_ahead\<close>; \<open>token_after_sep\<close> tries the alternative
  \<^verbatim>\<open>,\s*\<close> at every position; the alternative \<^verbatim>\<open>^\<close> only matches at position 0.
\<close>

fun ahead :: "jsstring \<Rightarrow> bool" where
  "ahead [] = True"
| "ahead (c # cs) = (if is_space c then ahead cs else c = comma)"

definition opt_ahead :: "jsstring \<Rightarrow> jsstring \<Rightarrow> bool" where
  "opt_ahead opt s = (case lit opt s of None \<Rightarrow> False | Some r \<Rightarrow> ahead r)"

fun ws_opt_ahead :: "jsstring \<Rightarrow> jsstring \<Rightarrow> bool" where
  "ws_opt_ahead opt [] = opt_ahead opt []"
| "ws_opt_ahead opt (c # cs) =
     ((is_space c \<and> ws_opt_ahead opt cs) \<or> opt_ahead opt (c # cs))"

fun token_after_sep :: "jsstring \<Rightarrow> jsstring \<Rightarrow> bool" where
  "token_after_sep opt [] = False"
| "token_after_sep opt (c # cs) =
     ((c = comma \<and> ws_opt_ahead opt cs) \<or> token_after_sep opt cs)"

definition tokenRegex_test :: "jsstring \<Rightarrow> jsstring \<Rightarrow> bool" where
  "tokenRegex_test opt t = (opt_ahead opt t \<or> token_after_sep opt t)"

definition hasOptionToken :: "jsstring \<Rightarrow> jsstring \<Rightarrow> bool" where
  "hasOptionToken text opt =
     (let t = trim text in
      if t = [] \<or> opt = [] then False else tokenRegex_test opt t)"

subsection \<open>Adding a token\<close>

text \<open>
  \<^verbatim>\<open>t.replace(/,\s*$/, "")\<close>: the leftmost comma that only white space separates from
  the end of the text is removed together with that white space.
\<close>

fun strip_trailing_comma :: "jsstring \<Rightarrow> jsstring" where
  "strip_trailing_comma [] = []"
| "strip_trailing_comma (c # cs) =
     (if c = comma \<and> list_all is_space cs then [] else c # strip_trailing_comma cs)"

definition addOptionToken :: "jsstring \<Rightarrow> jsstring \<Rightarrow> jsstring" where
  "addOptionToken text opt =
     (let t = trim text in
      if opt = [] then t
      else if hasOptionToken t opt then t
      else if t = [] then opt
      else let base = trim (strip_trailing_comma t) in
           if base \<noteq> [] then base @ [comma, blank] @ opt else opt)"

subsection \<open>Removing a token\<close>

text \<open>
  Step 1, \<^verbatim>\<open>t.replace(new RegExp(`^${e}\\s*(?:,\\s*)?`), "")\<close>: the option at the very
  start, the white space after it and, when a comma follows, that comma and the white
  space after it.
\<close>

definition remove_at_start :: "jsstring \<Rightarrow> jsstring \<Rightarrow> jsstring" where
  "remove_at_start opt t =
     (case lit opt t of
        None \<Rightarrow> t
      | Some r \<Rightarrow>
          (case dropWhile is_space r of
             [] \<Rightarrow> []
           | c # r' \<Rightarrow> if c = comma then dropWhile is_space r' else c # r'))"

text \<open>
  Step 2, \<^verbatim>\<open>t.replace(new RegExp(`(?:,\\s*)${e}`, "g"), "")\<close>. \<open>ws_lit\<close> is
  \<^verbatim>\<open>\s*OPT\<close> after the comma: the greedy star first takes as much white space as it can
  and gives it back one character at a time until the option matches. The global
  replacement goes on after each match and copies every other character.
\<close>

fun ws_lit :: "jsstring \<Rightarrow> jsstring \<Rightarrow> jsstring option" where
  "ws_lit opt [] = lit opt []"
| "ws_lit opt (c # cs) =
     (if is_space c
      then (case ws_lit opt cs of Some r \<Rightarrow> Some r | None \<Rightarrow> lit opt (c # cs))
      else lit opt (c # cs))"

function remove_elsewhere :: "jsstring \<Rightarrow> jsstring \<Rightarrow> jsstring" where
  "remove_elsewhere opt [] = []"
| "remove_elsewhere opt (c # cs) =
     (if c = comma then
        (case ws_lit opt cs of
           Some r \<Rightarrow> remove_elsewhere opt r
         | None \<Rightarrow> c # remove_elsewhere opt cs)
      else c # remove_elsewhere opt cs)"
  by pat_completeness auto
termination
proof (relation "measure (\<lambda>(opt, t). length t)")
  have lit_len: "lit p s = Some r \<Longrightarrow> length r \<le> length s" for p s r
    by (induction p s rule: lit.induct) (auto split: if_splits)
  have ws_len: "ws_lit p s = Some r \<Longrightarrow> length r \<le> length s" for p s r
    by (induction p s rule: ws_lit.induct)
       (auto split: if_splits option.splits dest: lit_len)
  show "\<And>opt c cs x2. c = comma \<Longrightarrow> ws_lit opt cs = Some x2 \<Longrightarrow>
          ((opt, x2), (opt, c # cs)) \<in> measure (\<lambda>(opt, t). length t)"
    by (auto dest: ws_len)
qed auto

text \<open>
  The tidy-up of lines 180 to 182.
  \<^verbatim>\<open>replace(/^\s*,\s*/, "")\<close> is \<open>strip_leading_sep\<close>,
  \<^verbatim>\<open>replace(/\s*,\s*$/, "")\<close> is \<open>strip_trailing_sep\<close> (the leftmost position from which
  white space, one comma and white space reach the end),
  \<^verbatim>\<open>replace(/,\s*,+/g, ", ")\<close> is \<open>collapse_commas\<close> and
  \<^verbatim>\<open>replace(/\s{2,}/g, " ")\<close> is \<open>collapse_spaces\<close>.
\<close>

definition strip_leading_sep :: "jsstring \<Rightarrow> jsstring" where
  "strip_leading_sep t =
     (case dropWhile is_space t of
        [] \<Rightarrow> t
      | c # r \<Rightarrow> if c = comma then dropWhile is_space r else t)"

definition sep_to_end :: "jsstring \<Rightarrow> bool" where
  "sep_to_end s =
     (case dropWhile is_space s of
        [] \<Rightarrow> False
      | c # r \<Rightarrow> c = comma \<and> list_all is_space r)"

fun strip_trailing_sep :: "jsstring \<Rightarrow> jsstring" where
  "strip_trailing_sep [] = []"
| "strip_trailing_sep (c # cs) =
     (if sep_to_end (c # cs) then [] else c # strip_trailing_sep cs)"

function collapse_commas :: "jsstring \<Rightarrow> jsstring" where
  "collapse_commas [] = []"
| "collapse_commas (c # cs) =
     (if c = comma then
        (case dropWhile is_space cs of
           [] \<Rightarrow> c # collapse_commas cs
         | d # r \<Rightarrow>
             if d = comma
             then [comma, blank] @ collapse_commas (dropWhile (\<lambda>x. x = comma) r)
             else c # collapse_commas cs)
      else c # collapse_commas cs)"
  by pat_completeness auto
termination
proof (relation "measure length")
  show "\<And>c cs d r. c = comma \<Longrightarrow> dropWhile is_space cs = d # r \<Longrightarrow> d = comma \<Longrightarrow>
          (dropWhile (\<lambda>x. x = comma) r, c # cs) \<in> measure length"
  proof -
    fix c d :: "16 word" and cs r :: jsstring
    assume h: "dropWhile is_space cs = d # r"
    have "length (dropWhile (\<lambda>x. x = comma) r) \<le> length r"
      by (rule length_dropWhile_le)
    moreover have "length (d # r) \<le> length cs"
      using length_dropWhile_le [of is_space cs] h by simp
    ultimately show "(dropWhile (\<lambda>x. x = comma) r, c # cs) \<in> measure length"
      by simp
  qed
qed auto

function collapse_spaces :: "jsstring \<Rightarrow> jsstring" where
  "collapse_spaces [] = []"
| "collapse_spaces [c] = [c]"
| "collapse_spaces (c # d # cs) =
     (if is_space c \<and> is_space d then blank # collapse_spaces (dropWhile is_space cs)
      else c # collapse_spaces (d # cs))"
  by pat_completeness auto
termination
proof (relation "measure length")
  show "\<And>c d cs. is_space c \<and> is_space d \<Longrightarrow>
          (dropWhile is_space cs, c # d # cs) \<in> measure length"
    using length_dropWhile_le [of is_space] by (simp add: le_imp_less_Suc le_SucI)
qed auto

definition tidy :: "jsstring \<Rightarrow> jsstring" where
  "tidy t =
     trim (collapse_spaces (collapse_commas (strip_trailing_sep (strip_leading_sep t))))"

definition removeOptionToken :: "jsstring \<Rightarrow> jsstring \<Rightarrow> jsstring" where
  "removeOptionToken text opt =
     (let t = trim text in
      if t = [] \<or> opt = [] then t
      else tidy (remove_elsewhere opt (remove_at_start opt t)))"

section \<open>Categories, their output entries and the reconciler\<close>

record category =
  cid :: jsstring
  name :: jsstring
  options :: "jsstring list"
  selected :: "nat list"

text \<open>
  One entry of \<^verbatim>\<open>outputsByCatId\<close>: \<^verbatim>\<open>{ text, dirty, undo, lastValue }\<close>.
\<close>

record outentry =
  out_text :: jsstring
  dirty :: bool
  undo :: "jsstring list"
  lastValue :: jsstring

text \<open>
  \<^verbatim>\<open>ensureOutputEntry(cat)\<close>, on the entry found under \<^verbatim>\<open>cat.id\<close> (if any).
\<close>

definition ensureOutputEntry :: "outentry option \<Rightarrow> outentry" where
  "ensureOutputEntry existing =
     (case existing of
        Some e \<Rightarrow> e
      | None \<Rightarrow> \<lparr>out_text = [], dirty = False, undo = [], lastValue = []\<rparr>)"

text \<open>\<^verbatim>\<open>out.undo.push(prevText); if (out.undo.length > 120) out.undo.shift();\<close>\<close>

definition push_bounded :: "jsstring list \<Rightarrow> jsstring \<Rightarrow> jsstring list" where
  "push_bounded stack v = (let u = stack @ [v] in if length u > 120 then tl u else u)"

definition pushUndo :: "outentry \<Rightarrow> jsstring \<Rightarrow> outentry" where
  "pushUndo out prevText = out\<lparr>undo := push_bounded (undo out) prevText\<rparr>"

text \<open>
  The \<^verbatim>\<open>forEach\<close> of \<^verbatim>\<open>reconcileSelectionFromText\<close>: \<open>i\<close> is the index of the option at
  the head of the list and \<open>sel\<close> the array built so far.
\<close>

fun reconcile_loop :: "jsstring \<Rightarrow> jsstring list \<Rightarrow> nat \<Rightarrow> nat list \<Rightarrow> nat list" where
  "reconcile_loop t [] i sel = sel"
| "reconcile_loop t (opt # opts) i sel =
     reconcile_loop t opts (Suc i)
       (if opt \<noteq> [] \<and> hasOptionToken t opt then sel @ [i] else sel)"

definition reconcileSelectionFromText :: "category \<Rightarrow> jsstring \<Rightarrow> category" where
  "reconcileSelectionFromText cat text =
     cat\<lparr>selected := reconcile_loop (trim text) (options cat) 0 []\<rparr>"

section \<open>Operations on one category and its output entry\<close>

text \<open>
  Every operation below acts on one category object \<open>cat\<close> and on the entry that
  \<^verbatim>\<open>outputsByCatId[cat.id]\<close> holds for it (\<open>None\<close> when the map has no such key). It
  returns both as the source leaves them.
\<close>

definition isAllSelected :: "category \<Rightarrow> bool" where
  "isAllSelected cat \<longleftrightarrow>
     length (selected cat) = length (options cat) \<and> length (options cat) > 0"

text \<open>
  \<^verbatim>\<open>applyLeftToggle(cat, idx, checked)\<close>. \<^verbatim>\<open>(cat.options || [])[idx]\<close> is
  \<^verbatim>\<open>undefined\<close> beyond the end of the array, and the empty string is falsy as well.
\<close>

definition applyLeftToggle ::
  "category \<Rightarrow> outentry option \<Rightarrow> nat \<Rightarrow> bool \<Rightarrow> category \<times> outentry option" where
  "applyLeftToggle cat existing idx checked =
     (let out = ensureOutputEntry existing in
      if \<not> (idx < length (options cat) \<and> options cat ! idx \<noteq> []) then (cat, Some out)
      else
        let opt = options cat ! idx;
            prev = out_text out;
            next = (if checked then addOptionToken prev opt else removeOptionToken prev opt);
            out1 = (if next \<noteq> prev then pushUndo out prev else out);
            out2 = out1\<lparr>out_text := next, lastValue := next, dirty := True\<rparr>
        in (reconcileSelectionFromText cat next, Some out2))"

text \<open>\<^verbatim>\<open>applyLeftAllClear(cat, selectAll)\<close>; the two loops are folds over the truthy options.\<close>

definition applyLeftAllClear ::
  "category \<Rightarrow> outentry option \<Rightarrow> bool \<Rightarrow> category \<times> outentry option" where
  "applyLeftAllClear cat existing selectAll =
     (let out = ensureOutputEntry existing;
          prev = out_text out;
          opts = filter (\<lambda>s. s \<noteq> []) (options cat);
          next = (if selectAll then foldl addOptionToken prev opts
                  else foldl removeOptionToken prev opts);
          out1 = (if next \<noteq> prev then pushUndo out prev else out);
          out2 = out1\<lparr>out_text := next, lastValue := next, dirty := True\<rparr>
      in (reconcileSelectionFromText cat next, Some out2))"

text \<open>\<^verbatim>\<open>toggleAll(catId)\<close>, once the category has been found.\<close>

definition toggleAll :: "category \<Rightarrow> outentry option \<Rightarrow> category \<times> outentry option" where
  "toggleAll cat existing =
     (if length (options cat) = 0 then (cat, existing)
      else applyLeftAllClear cat existing (\<not> isAllSelected cat))"

text \<open>
  The \<^verbatim>\<open>input\<close> listener that \<^verbatim>\<open>renderOutputs\<close> puts on the category's textarea;
  \<open>v\<close> is \<^verbatim>\<open>ta.value\<close>. \<^verbatim>\<open>renderOutputs\<close> has called \<^verbatim>\<open>ensureOutputEntry\<close> before.
\<close>

definition textareaInput ::
  "category \<Rightarrow> outentry option \<Rightarrow> jsstring \<Rightarrow> category \<times> outentry option" where
  "textareaInput cat existing v =
     (let outEntry = ensureOutputEntry existing;
          out1 = (if lastValue outEntry \<noteq> v
                  then outEntry\<lparr>undo := push_bounded (undo outEntry) (lastValue outEntry),
                                lastValue := v\<rparr>
                  else outEntry);
          out2 = out1\<lparr>out_text := v, dirty := True\<rparr>
      in (reconcileSelectionFromText cat v, Some out2))"

text \<open>\<^verbatim>\<open>clearOutput(catId)\<close> and \<^verbatim>\<open>undoOutput(catId)\<close>, once the category has been found.\<close>

definition clearOutput :: "category \<Rightarrow> outentry option \<Rightarrow> category \<times> outentry option" where
  "clearOutput cat existing =
     (case existing of
        None \<Rightarrow> (cat, None)
      | Some out \<Rightarrow>
          let out1 = pushUndo out (out_text out);
              out2 = out1\<lparr>out_text := [], lastValue := [], dirty := True\<rparr>
          in (reconcileSelectionFromText cat [], Some out2))"

definition undoOutput :: "category \<Rightarrow> outentry option \<Rightarrow> category \<times> outentry option" where
  "undoOutput cat existing =
     (case existing of
        None \<Rightarrow> (cat, None)
      | Some out \<Rightarrow>
          if undo out = [] then (cat, Some out)
          else
            let prev = last (undo out);
                out1 = out\<lparr>undo := butlast (undo out)\<rparr>;
                out2 = out1\<lparr>out_text := prev, lastValue := prev, dirty := True\<rparr>
            in (reconcileSelectionFromText cat prev, Some out2))"

text \<open>
  \<^verbatim>\<open>saveBulkModal\<close>: \<open>nameValue\<close> and \<open>linesValue\<close> are the values of the two modal
  fields. \<open>split_lines\<close> is \<^verbatim>\<open>split(/\r?\n/)\<close>, with \<open>cur\<close> the piece read so far.
\<close>

fun split_lines :: "jsstring \<Rightarrow> jsstring \<Rightarrow> jsstring list" where
  "split_lines cur [] = [cur]"
| "split_lines cur [c] = (if c = 0x0A then [cur, []] else [cur @ [c]])"
| "split_lines cur (c # d # cs) =
     (if c = 0x0A then cur # split_lines [] (d # cs)
      else if c = 0x0D \<and> d = 0x0A then cur # split_lines [] cs
      else split_lines (cur @ [c]) (d # cs))"

definition saveBulkModal ::
  "category \<Rightarrow> outentry option \<Rightarrow> jsstring \<Rightarrow> jsstring \<Rightarrow> category \<times> outentry option" where
  "saveBulkModal cat existing nameValue linesValue =
     (let cat1 = cat\<lparr>name := (if trim nameValue \<noteq> [] then trim nameValue else name cat)\<rparr>;
          lines = filter (\<lambda>s. s \<noteq> []) (map trim (split_lines [] linesValue));
          cat2 = cat1\<lparr>options := lines\<rparr>;
          out = ensureOutputEntry existing
      in (reconcileSelectionFromText cat2 (out_text out), Some out))"

text \<open>
  The body of the last loop of \<^verbatim>\<open>init\<close> for one category: the stored selection is
  only replaced when the stored text is not empty.
\<close>

definition init_category :: "category \<Rightarrow> outentry option \<Rightarrow> category \<times> outentry option" where
  "init_category cat existing =
     (let out = ensureOutputEntry existing in
      if out_text out \<noteq> [] then (reconcileSelectionFromText cat (out_text out), Some out)
      else (cat, Some out))"

text \<open>The user's gestures on one category.\<close>

datatype gesture =
    ToggleOption nat bool
  | ToggleAll
  | TextInput jsstring
  | ClearOutput
  | UndoOutput
  | SaveBulk jsstring jsstring

fun perform :: "gesture \<Rightarrow> category \<times> outentry option \<Rightarrow> category \<times> outentry option" where
  "perform (ToggleOption idx checked) (cat, existing) = applyLeftToggle cat existing idx checked"
| "perform ToggleAll (cat, existing) = toggleAll cat existing"
| "perform (TextInput v) (cat, existing) = textareaInput cat existing v"
| "perform ClearOutput (cat, existing) = clearOutput cat existing"
| "perform UndoOutput (cat, existing) = undoOutput cat existing"
| "perform (SaveBulk nameValue linesValue) (cat, existing) =
     saveBulkModal cat existing nameValue linesValue"

text \<open>
  The cases in which the handler of a gesture returns before it touches the text or the
  selection: a toggle whose index has no option or an empty one, All/Clear on a category
  without options, a clear without an output entry, an undo without an entry or with an
  empty stack.
\<close>

fun returns_early :: "gesture \<Rightarrow> category \<times> outentry option \<Rightarrow> bool" where
  "returns_early (ToggleOption idx checked) (cat, existing) =
     (\<not> (idx < length (options cat) \<and> options cat ! idx \<noteq> []))"
| "returns_early ToggleAll (cat, existing) = (length (options cat) = 0)"
| "returns_early (TextInput v) (cat, existing) = False"
| "returns_early ClearOutput (cat, existing) = (existing = None)"
| "returns_early UndoOutput (cat, existing) =
     (case existing of None \<Rightarrow> True | Some out \<Rightarrow> undo out = [])"
| "returns_early (SaveBulk nameValue linesValue) (cat, existing) = False"

text \<open>The text that \<^verbatim>\<open>buildSummary\<close> reads for a category: \<^verbatim>\<open>outputsByCatId[cat.id]?.text || ""\<close>.\<close>

definition text_of :: "outentry option \<Rightarrow> jsstring" where
  "text_of existing = (case existing of None \<Rightarrow> [] | Some out \<Rightarrow> out_text out)"

text \<open>
  The selection that the text determines: the indices, in increasing order, of the
  options that \<open>hasOptionToken\<close> finds in the text.
\<close>

definition present_indices :: "jsstring list \<Rightarrow> jsstring \<Rightarrow> nat list" where
  "present_indices opts text =
     filter (\<lambda>i. hasOptionToken text (opts ! i)) [0..<length opts]"

definition consistent :: "category \<times> outentry option \<Rightarrow> bool" where
  "consistent st \<longleftrightarrow>
     selected (fst st) = present_indices (options (fst st)) (text_of (snd st))"

section \<open>History snapshots\<close>

text \<open>An entry of the day's history: \<^verbatim>\<open>{ id, time, text }\<close>.\<close>

record historyEntry =
  hid :: jsstring
  htime :: jsstring
  htext :: jsstring

text \<open>
  What \<^verbatim>\<open>new Date()\<close> reports in local time: \<^verbatim>\<open>getFullYear()\<close>, \<^verbatim>\<open>getMonth()\<close>
  (0 to 11), \<^verbatim>\<open>getDate()\<close>, \<^verbatim>\<open>getHours()\<close>, \<^verbatim>\<open>getMinutes()\<close>, \<^verbatim>\<open>getSeconds()\<close>.
  One reading stands for all the readings that one click makes.
\<close>

record clock =
  fullYear :: nat
  month :: nat
  date :: nat
  hours :: nat
  minutes :: nat
  seconds :: nat

text \<open>\<^verbatim>\<open>String(n)\<close> for a natural number, and \<^verbatim>\<open>padStart(2, "0")\<close>.\<close>

definition digit :: "nat \<Rightarrow> 16 word" where
  "digit d = of_nat (48 + d)"

fun decimal :: "nat \<Rightarrow> jsstring" where
  "decimal n = (if n < 10 then [digit n] else decimal (n div 10) @ [digit (n mod 10)])"

definition padStart2 :: "jsstring \<Rightarrow> jsstring" where
  "padStart2 s = replicate (2 - length s) (digit 0) @ s"

definition todayKey :: "clock \<Rightarrow> jsstring" where
  "todayKey clk =
     decimal (fullYear clk) @ js ''-'' @ padStart2 (decimal (month clk + 1)) @ js ''-''
       @ padStart2 (decimal (date clk))"

definition historyKey :: "clock \<Rightarrow> jsstring" where
  "historyKey clk = js ''pm_history_'' @ todayKey clk"

definition nowTime :: "clock \<Rightarrow> jsstring" where
  "nowTime clk =
     padStart2 (decimal (hours clk)) @ js '':'' @ padStart2 (decimal (minutes clk)) @ js '':''
       @ padStart2 (decimal (seconds clk))"

text \<open>
  The history documents of \<^verbatim>\<open>localStorage\<close>, by key, as the lists they parse to.
  \<^verbatim>\<open>getHistory\<close> reads a missing key as the empty list.
\<close>

type_synonym history_storage = "jsstring \<rightharpoonup> historyEntry list"

definition getHistory :: "history_storage \<Rightarrow> clock \<Rightarrow> historyEntry list" where
  "getHistory store clk = (case store (historyKey clk) of None \<Rightarrow> [] | Some list \<Rightarrow> list)"

definition setHistory :: "history_storage \<Rightarrow> clock \<Rightarrow> historyEntry list \<Rightarrow> history_storage" where
  "setHistory store clk list = store(historyKey clk \<mapsto> list)"

text \<open>
  \<^verbatim>\<open>saveSnapshot\<close>: \<open>summaryValue\<close> is \<^verbatim>\<open>elSummary.value\<close> and \<open>randomHex\<close> is the string
  \<^verbatim>\<open>Math.random().toString(16)\<close>, of which \<^verbatim>\<open>slice(2, 10)\<close> keeps at most eight
  characters after the first two. The result is the text of the alert, if one is shown,
  and the storage as the function leaves it.
\<close>

definition saveSnapshot ::
  "jsstring \<Rightarrow> jsstring \<Rightarrow> clock \<Rightarrow> history_storage \<Rightarrow> jsstring option \<times> history_storage" where
  "saveSnapshot summaryValue randomHex clk store =
     (let summary = trim summaryValue in
      if summary = []
      then (Some (js ''Nothing to save yet. Select some options first.''), store)
      else
        let item = \<lparr>hid = js ''h_'' @ take 8 (drop 2 randomHex), htime = nowTime clk,
                    htext = summary\<rparr>;
            hist = getHistory store clk
        in (None, setHistory store clk (item # hist)))"

text \<open>A string of the shape \<^verbatim>\<open>HH:MM:SS\<close>.\<close>

definition is_digit :: "16 word \<Rightarrow> bool" where
  "is_digit c \<longleftrightarrow> 0x30 \<le> c \<and> c \<le> 0x39"

definition is_hhmmss :: "jsstring \<Rightarrow> bool" where
  "is_hhmmss s \<longleftrightarrow>
     (case s of
        [h1, h2, c1, m1, m2, c2, s1, s2] \<Rightarrow>
          is_digit h1 \<and> is_digit h2 \<and> c1 = 0x3A \<and> is_digit m1 \<and> is_digit m2 \<and> c2 = 0x3A
          \<and> is_digit s1 \<and> is_digit s2
      | _ \<Rightarrow> False)"

section \<open>States used in the examples\<close>

abbreviation style_category :: "jsstring list \<Rightarrow> nat list \<Rightarrow> category" where
  "style_category opts sel \<equiv>
     \<lparr>cid = js ''c1'', name = js ''Style'', options = opts, selected = sel\<rparr>"

abbreviation entry :: "jsstring \<Rightarrow> bool \<Rightarrow> jsstring list \<Rightarrow> jsstring \<Rightarrow> outentry" where
  "entry t d u l \<equiv> \<lparr>out_text = t, dirty = d, undo = u, lastValue = l\<rparr>"

text \<open>A clock reading on 2 November 2026, at 09:05 and the given second.\<close>

abbreviation morning :: "nat \<Rightarrow> clock" where
  "morning s \<equiv>
     \<lparr>fullYear = 2026, month = 10, date = 2, hours = 9, minutes = 5, seconds = s\<rparr>"

section \<open>Properties\<close>

subsection \<open>White space and the separator\<close>

lemma comma_not_space [simp]: "\<not> is_space comma"
  by (simp add: is_space_def comma_def)

lemma blank_is_space [simp]: "is_space blank"
  by (simp add: is_space_def blank_def)

lemma trim_Nil [simp]: "trim [] = []"
  by (simp add: trim_def)

lemma dropWhile_same_length:
  "length (dropWhile P xs) = length xs \<Longrightarrow> dropWhile P xs = xs"
  by (metis dropWhile_eq_self_iff length_dropWhile_le hd_dropWhile takeWhile_dropWhile_id append_self_conv2 length_append add_cancel_left_left length_0_conv)

lemma trim_fixed_iff:
  "trim s = s \<longleftrightarrow> s = [] \<or> (\<not> is_space (hd s) \<and> \<not> is_space (last s))"
proof
  assume h: "trim s = s"
  show "s = [] \<or> (\<not> is_space (hd s) \<and> \<not> is_space (last s))"
  proof (cases "s = []")
    case False
    have l1: "length (trim s) \<le> length (dropWhile is_space s)"
      using length_dropWhile_le [of is_space "rev (dropWhile is_space s)"]
      by (simp add: trim_def)
    have l2: "length (dropWhile is_space s) \<le> length s"
      by (rule length_dropWhile_le)
    from h l1 l2 have "length (dropWhile is_space s) = length s" by simp
    then have d: "dropWhile is_space s = s" by (rule dropWhile_same_length)
    with h have "dropWhile is_space (rev s) = rev s"
      by (simp add: trim_def) (metis rev_rev_ident)
    with False have "\<not> is_space (hd (rev s))"
      by (simp add: dropWhile_eq_self_iff)
    moreover from d False have "\<not> is_space (hd s)"
      by (simp add: dropWhile_eq_self_iff)
    ultimately show ?thesis using False by (simp add: hd_rev)
  qed simp
next
  assume "s = [] \<or> (\<not> is_space (hd s) \<and> \<not> is_space (last s))"
  then show "trim s = s"
  proof
    assume "s = []" then show ?thesis by simp
  next
    assume a: "\<not> is_space (hd s) \<and> \<not> is_space (last s)"
    then have "dropWhile is_space s = s" by (simp add: dropWhile_eq_self_iff)
    moreover from a have "dropWhile is_space (rev s) = rev s"
      by (cases "s = []") (simp_all add: dropWhile_eq_self_iff hd_rev)
    ultimately show ?thesis by (simp add: trim_def)
  qed
qed

lemma trim_idem [simp]: "trim (trim s) = trim s"
proof (cases "trim s = []")
  case True
  then show ?thesis by simp
next
  case False
  define d where "d = dropWhile is_space s"
  define e where "e = dropWhile is_space (rev d)"
  have t: "trim s = rev e" by (simp add: trim_def d_def e_def)
  from False t have "e \<noteq> []" by simp
  then have e1: "\<not> is_space (hd e)"
    unfolding e_def by (simp add: hd_dropWhile)
  from \<open>e \<noteq> []\<close> have "d \<noteq> []" by (auto simp: e_def)
  then have d1: "\<not> is_space (hd d)"
    unfolding d_def by (simp add: hd_dropWhile)
  have "\<exists>ys. rev d = ys @ e"
    unfolding e_def by (metis takeWhile_dropWhile_id)
  then obtain ys where "rev d = ys @ e" ..
  then have "d = rev e @ rev ys" by (metis rev_append rev_rev_ident)
  with \<open>e \<noteq> []\<close> have "hd (rev e) = hd d" by simp
  with d1 e1 \<open>e \<noteq> []\<close> have "\<not> is_space (hd (rev e)) \<and> \<not> is_space (last (rev e))"
    by (simp add: last_rev)
  then show ?thesis
    unfolding t by (simp add: trim_fixed_iff)
qed

text \<open>The definitions that evaluate the token functions on a concrete text.\<close>

lemmas token_eval =
  js_def comma_def blank_def is_space_def trim_def opt_ahead_def tokenRegex_test_def
  hasOptionToken_def addOptionToken_def remove_at_start_def strip_leading_sep_def
  sep_to_end_def tidy_def removeOptionToken_def

subsection \<open>The reconciler\<close>

lemma hasOptionToken_trim [simp]: "hasOptionToken (trim t) opt = hasOptionToken t opt"
  by (simp add: hasOptionToken_def)

lemma hasOptionToken_empty_option [simp]: "\<not> hasOptionToken t []"
  by (simp add: hasOptionToken_def)

lemma reconcile_loop_filter:
  "reconcile_loop t opts i sel =
     sel @ map (\<lambda>j. i + j) (filter (\<lambda>j. hasOptionToken t (opts ! j)) [0..<length opts])"
proof (induction opts arbitrary: i sel)
  case Nil
  then show ?case by simp
next
  case (Cons opt opts)
  have upt: "[0..<length (opt # opts)] = 0 # map Suc [0..<length opts]"
    by (simp add: upt_conv_Cons map_Suc_upt del: upt_Suc)
  show ?case
    unfolding upt
    by (cases "opt = []") (simp_all add: Cons.IH filter_map comp_def del: upt_Suc)
qed

lemma selected_reconcile:
  "selected (reconcileSelectionFromText cat text) = present_indices (options cat) text"
  by (simp add: reconcileSelectionFromText_def present_indices_def reconcile_loop_filter)

lemma options_reconcile [simp]:
  "options (reconcileSelectionFromText cat text) = options cat"
  by (simp add: reconcileSelectionFromText_def)

lemma present_indices_sorted: "sorted_wrt (<) (present_indices opts text)"
  unfolding present_indices_def by (rule sorted_wrt_filter) (rule sorted_wrt_upt)

lemma present_indices_member:
  "i \<in> set (present_indices opts text) \<longleftrightarrow> i < length opts \<and> hasOptionToken text (opts ! i)"
  by (auto simp: present_indices_def)

text \<open>
  C10: the selection that reconciliation produces is a duplicate-free list of indices in
  strictly increasing order, every index lies within the bounds of the category's option
  list, and an index whose option is the empty string is never selected.
\<close>

theorem reconcile_selection_shape:
  "sorted_wrt (<) (selected (reconcileSelectionFromText cat text)) \<and>
   distinct (selected (reconcileSelectionFromText cat text)) \<and>
   (\<forall>i \<in> set (selected (reconcileSelectionFromText cat text)).
      i < length (options cat) \<and> options cat ! i \<noteq> [])"
proof -
  have "distinct (present_indices (options cat) text)"
    by (simp add: present_indices_def)
  moreover have "\<forall>i \<in> set (present_indices (options cat) text).
      i < length (options cat) \<and> options cat ! i \<noteq> []"
    by (auto simp: present_indices_member)
  ultimately show ?thesis
    by (simp add: selected_reconcile present_indices_sorted)
qed

text \<open>
  C10 at a category with the options \<open>a\<close>, the empty string and \<open>b\<close>, a stale
  selection and the text \<open>b, a\<close>: indices 0 and 2 are selected.
\<close>

theorem reconcile_selection_shape_witness:
  "selected (reconcileSelectionFromText
      (style_category [js ''a'', [], js ''b''] [1])
      (js ''b, a'')) = [0, 2] \<and>
   options (style_category [js ''a'', [], js ''b''] [1]) ! 2 \<noteq> []"
  using reconcile_selection_shape
    [of "style_category [js ''a'', [], js ''b''] [1]"
        "js ''b, a''"]
  by (simp add: reconcileSelectionFromText_def token_eval)

subsection \<open>Removing and adding tokens\<close>

text \<open>
  C1 (removing an option leaves no token of it) at the text \<open>a, a\<close> and the option
  \<open>a\<close>: step 1 removes the first \<open>a\<close> with its separator, the second one then
  stands at the start of the text, where step 2 (which wants a comma before the option)
  does not see it. The result is \<open>a\<close>, in which the matcher still finds the option.
\<close>

theorem removeOptionToken_duplicate_survives:
  "removeOptionToken (js ''a, a'') (js ''a'') = js ''a'' \<and>
   hasOptionToken (removeOptionToken (js ''a, a'') (js ''a'')) (js ''a'')"
  by (simp add: token_eval)

text \<open>
  C6 as stated (an option that is present leaves the text exactly as it was) fails on
  the text \<open>a\<close> followed by a blank: the matcher finds \<open>a\<close>, and the result has lost
  the blank.
\<close>

theorem addOptionToken_present_counterexample:
  "hasOptionToken (js ''a '') (js ''a'') \<and> addOptionToken (js ''a '') (js ''a'') \<noteq> js ''a ''"
  by (simp add: token_eval)

text \<open>
  C6, amended: when the matcher finds the option in the text, \<open>addOptionToken\<close> returns
  the text with its leading and trailing white space removed, and nothing else changed.
\<close>

theorem addOptionToken_present:
  "hasOptionToken t opt \<Longrightarrow> addOptionToken t opt = trim t"
  by (auto simp: addOptionToken_def Let_def)

text \<open>C6, amended, at the text \<open>a\<close> followed by a blank and the option \<open>a\<close>.\<close>

theorem addOptionToken_present_witness:
  "hasOptionToken (js ''a '') (js ''a'') \<and> addOptionToken (js ''a '') (js ''a'') = js ''a''"
proof -
  have h: "hasOptionToken (js ''a '') (js ''a'')" by (simp add: token_eval)
  have "trim (js ''a '') = js ''a''" by (simp add: token_eval)
  with h addOptionToken_present [OF h] show ?thesis by simp
qed

lemma lit_append [simp]: "lit p (p @ r) = Some r"
  by (induction p) simp_all

lemma lit_self [simp]: "lit p p = Some []"
  using lit_append [of p "[]"] by simp

lemma opt_ahead_self [simp]: "opt_ahead opt opt"
  by (simp add: opt_ahead_def)

lemma ws_opt_ahead_self [simp]: "ws_opt_ahead opt opt"
  by (cases opt) simp_all

lemma token_after_sep_append: "token_after_sep opt ys \<Longrightarrow> token_after_sep opt (xs @ ys)"
  by (induction xs) simp_all

lemma token_after_appended:
  "token_after_sep opt (base @ [comma, blank] @ opt)"
  by (rule token_after_sep_append) simp

lemma trimmed_append:
  assumes "trim base = base" "base \<noteq> []" "trim opt = opt" "opt \<noteq> []"
  shows "trim (base @ [comma, blank] @ opt) = base @ [comma, blank] @ opt"
  using assms by (simp add: trim_fixed_iff)

lemma hasOptionToken_self:
  "opt \<noteq> [] \<Longrightarrow> trim opt = opt \<Longrightarrow> hasOptionToken opt opt"
  by (simp add: hasOptionToken_def tokenRegex_test_def)

lemma add_then_has:
  assumes "opt \<noteq> []" "trim opt = opt"
  shows "hasOptionToken (addOptionToken t opt) opt"
proof -
  define base where "base = trim (strip_trailing_comma (trim t))"
  have b: "trim base = base" by (simp add: base_def)
  consider (present) "hasOptionToken (trim t) opt"
    | (alone) "\<not> hasOptionToken (trim t) opt" "trim t = [] \<or> base = []"
    | (appended) "\<not> hasOptionToken (trim t) opt" "trim t \<noteq> []" "base \<noteq> []"
    by blast
  then show ?thesis
  proof cases
    case present
    with assms show ?thesis by (simp add: addOptionToken_def Let_def)
  next
    case alone
    with assms have "addOptionToken t opt = opt"
      by (auto simp: addOptionToken_def Let_def base_def)
    with assms show ?thesis by (simp add: hasOptionToken_self)
  next
    case appended
    with assms have r: "addOptionToken t opt = base @ [comma, blank] @ opt"
      by (simp add: addOptionToken_def Let_def base_def)
    have "trim (base @ [comma, blank] @ opt) = base @ [comma, blank] @ opt"
      using b appended assms by (intro trimmed_append) simp_all
    moreover have "tokenRegex_test opt (base @ [comma, blank] @ opt)"
      unfolding tokenRegex_test_def using token_after_appended by blast
    ultimately show ?thesis
      using assms unfolding r hasOptionToken_def by (simp add: Let_def)
  qed
qed

lemma add_trimmed:
  assumes "trim opt = opt"
  shows "trim (addOptionToken t opt) = addOptionToken t opt"
proof (cases "opt = []")
  case True
  then show ?thesis by (simp add: addOptionToken_def Let_def)
next
  case False
  define base where "base = trim (strip_trailing_comma (trim t))"
  have b: "trim base = base" by (simp add: base_def)
  have "base \<noteq> [] \<Longrightarrow> trim (base @ [comma, blank] @ opt) = base @ [comma, blank] @ opt"
    using b assms False by (intro trimmed_append) simp_all
  then show ?thesis
    using assms False by (auto simp: addOptionToken_def Let_def base_def)
qed

lemma add_present: "hasOptionToken t opt \<Longrightarrow> addOptionToken t opt = trim t"
  by (auto simp: addOptionToken_def Let_def)

text \<open>
  C5 as stated (after adding the option the matcher finds it, for every text and every
  option string) fails for the empty option, which \<open>addOptionToken\<close> does not add, for
  an option that ends in white space, which the matcher's \<open>trim\<close> cuts off the end of
  the text, and for an option that begins with white space when it becomes the whole
  text.
\<close>

theorem hasToken_after_add_counterexample:
  "\<not> hasOptionToken (addOptionToken (js ''x'') []) [] \<and>
   \<not> hasOptionToken (addOptionToken (js ''x'') (js ''a '')) (js ''a '') \<and>
   \<not> hasOptionToken (addOptionToken [] (js '' a'')) (js '' a'')"
  by (simp add: token_eval)

text \<open>
  C5, amended: for every text and every option that is not empty and has no leading or
  trailing white space (the options that the bulk editor stores), the matcher finds the
  option after \<open>addOptionToken\<close>.
\<close>

theorem hasToken_after_add:
  "opt \<noteq> [] \<Longrightarrow> trim opt = opt \<Longrightarrow> hasOptionToken (addOptionToken t opt) opt"
  by (rule add_then_has)

text \<open>C5, amended, at the text \<open>x,\<close> and the option \<open>a, b\<close>.\<close>

theorem hasToken_after_add_witness:
  "js ''a, b'' \<noteq> [] \<and> trim (js ''a, b'') = js ''a, b'' \<and>
   addOptionToken (js ''x, '') (js ''a, b'') = js ''x, a, b'' \<and>
   hasOptionToken (addOptionToken (js ''x, '') (js ''a, b'')) (js ''a, b'')"
proof -
  have h1: "js ''a, b'' \<noteq> []" by (simp add: js_def)
  have h2: "trim (js ''a, b'') = js ''a, b''" by (simp add: token_eval)
  have "addOptionToken (js ''x, '') (js ''a, b'') = js ''x, a, b''" by (simp add: token_eval)
  with h1 h2 hasToken_after_add [OF h1 h2, of "js ''x, ''"] show ?thesis by simp
qed

subsection \<open>The output store\<close>

lemma text_of_Some [simp]: "text_of (Some out) = out_text out"
  by (simp add: text_of_def)

lemma text_of_ensure [simp]: "out_text (ensureOutputEntry existing) = text_of existing"
  by (cases existing) (simp_all add: ensureOutputEntry_def text_of_def)

lemma ensure_Some [simp]: "ensureOutputEntry (Some out) = out"
  by (simp add: ensureOutputEntry_def)

lemma push_bounded_last [simp]: "last (push_bounded stack v) = v"
  by (cases stack) (simp_all add: push_bounded_def Let_def)

lemma push_bounded_not_Nil [simp]: "push_bounded stack v \<noteq> []"
  by (cases stack) (simp_all add: push_bounded_def Let_def)

lemma consistent_reconcile [simp]:
  "consistent (reconcileSelectionFromText cat text, Some out) \<longleftrightarrow>
     present_indices (options cat) text = present_indices (options cat) (out_text out)"
  by (simp add: consistent_def selected_reconcile)

lemma toggle_invalid:
  "\<not> (idx < length (options cat) \<and> options cat ! idx \<noteq> []) \<Longrightarrow>
     applyLeftToggle cat existing idx checked = (cat, Some (ensureOutputEntry existing))"
  by (simp add: applyLeftToggle_def Let_def)

lemma toggle_valid:
  assumes "idx < length (options cat)" "options cat ! idx \<noteq> []"
  shows "applyLeftToggle cat existing idx checked =
     (let prev = text_of existing;
          next = (if checked then addOptionToken prev (options cat ! idx)
                  else removeOptionToken prev (options cat ! idx))
      in (reconcileSelectionFromText cat next,
          Some ((if next \<noteq> prev then pushUndo (ensureOutputEntry existing) prev
                 else ensureOutputEntry existing)
                \<lparr>out_text := next, lastValue := next, dirty := True\<rparr>)))"
  using assms by (simp add: applyLeftToggle_def Let_def)

text \<open>
  C7 as stated (when the toggle computes the text it already has, no field of the output
  record changes) fails on a fresh entry: unticking the absent option \<open>a\<close> leaves the
  empty text as it is, pushes nothing, and sets the dirty flag.
\<close>

theorem toggle_same_text_counterexample:
  "removeOptionToken [] (js ''a'') = [] \<and>
   snd (applyLeftToggle
          (style_category [js ''a''] [0])
          (Some (entry [] False [] [])) 0 False)
     = Some (entry [] True [] [])"
  by (simp add: applyLeftToggle_def Let_def removeOptionToken_def js_def)

text \<open>
  C7, amended: when the toggle of an existing, non-empty option computes the text that
  the entry already has, nothing is pushed onto the undo stack and the text stays as it
  is; \<open>lastValue\<close> is set to that text and the dirty flag is set, and the selection is
  reconciled from the text. So the output record is untouched exactly when it was dirty
  already and its \<open>lastValue\<close> was its text.
\<close>

theorem toggle_same_text:
  assumes "idx < length (options cat)" and "options cat ! idx \<noteq> []"
    and "(if checked then addOptionToken (text_of existing) (options cat ! idx)
          else removeOptionToken (text_of existing) (options cat ! idx)) = text_of existing"
  shows "applyLeftToggle cat existing idx checked =
     (reconcileSelectionFromText cat (text_of existing),
      Some ((ensureOutputEntry existing)\<lparr>lastValue := text_of existing, dirty := True\<rparr>))"
proof -
  have "(ensureOutputEntry existing)\<lparr>out_text := text_of existing\<rparr> = ensureOutputEntry existing"
    using text_of_ensure [of existing] by (metis outentry.surjective outentry.update_convs(1))
  with assms show ?thesis
    by (simp add: toggle_valid Let_def)
qed

text \<open>
  C7, amended, at an entry with the text \<open>a\<close> and one undo entry: ticking the option
  \<open>a\<close>, which is present, leaves text and stack alone and sets \<open>lastValue\<close> and the
  dirty flag.
\<close>

theorem toggle_same_text_witness:
  "(0::nat) < length [js ''a''] \<and> js ''a'' \<noteq> [] \<and>
   addOptionToken (js ''a'') (js ''a'') = js ''a'' \<and>
   snd (applyLeftToggle
          (style_category [js ''a''] [])
          (Some (entry (js ''a'') False [js ''x''] (js ''b'')))
          0 True)
     = Some (entry (js ''a'') True [js ''x''] (js ''a''))"
proof -
  have a: "addOptionToken (js ''a'') (js ''a'') = js ''a''" by (simp add: token_eval)
  have n: "js ''a'' \<noteq> []" by (simp add: js_def)
  show ?thesis
    using a n toggle_same_text
      [of 0 "style_category [js ''a''] []" True
          "Some (entry (js ''a'') False [js ''x''] (js ''b''))"]
    by simp
qed

lemma undo_pops:
  assumes "undo out1 = push_bounded stack p"
  shows "undoOutput cat (Some out1) =
     (reconcileSelectionFromText cat p,
      Some (out1\<lparr>undo := butlast (undo out1), out_text := p, lastValue := p, dirty := True\<rparr>))"
  using assms by (simp add: undoOutput_def Let_def)

lemma allclear_unfold:
  "applyLeftAllClear cat existing selectAll =
     (let prev = text_of existing;
          opts = filter (\<lambda>s. s \<noteq> []) (options cat);
          next = (if selectAll then foldl addOptionToken prev opts
                  else foldl removeOptionToken prev opts)
      in (reconcileSelectionFromText cat next,
          Some ((if next \<noteq> prev then pushUndo (ensureOutputEntry existing) prev
                 else ensureOutputEntry existing)
                \<lparr>out_text := next, lastValue := next, dirty := True\<rparr>)))"
  by (simp add: applyLeftAllClear_def Let_def)

lemma pushed_toggle:
  assumes "text_of (snd (applyLeftToggle cat existing idx checked)) \<noteq> text_of existing"
  shows "\<exists>out1. applyLeftToggle cat existing idx checked = (reconcileSelectionFromText cat (out_text out1), Some out1) \<and>
           undo out1 = push_bounded (undo (ensureOutputEntry existing)) (text_of existing)"
proof (cases "idx < length (options cat) \<and> options cat ! idx \<noteq> []")
  case True
  with assms show ?thesis
    by (auto simp: toggle_valid Let_def pushUndo_def split: if_splits)
next
  case False
  with assms show ?thesis by (simp add: toggle_invalid)
qed

lemma pushed_allclear:
  assumes "text_of (snd (applyLeftAllClear cat existing selectAll)) \<noteq> text_of existing"
  shows "\<exists>out1. applyLeftAllClear cat existing selectAll = (reconcileSelectionFromText cat (out_text out1), Some out1) \<and>
           undo out1 = push_bounded (undo (ensureOutputEntry existing)) (text_of existing)"
  using assms by (auto simp: allclear_unfold Let_def pushUndo_def split: if_splits)

lemma pushed_toggleAll:
  assumes "text_of (snd (toggleAll cat existing)) \<noteq> text_of existing"
  shows "\<exists>out1. toggleAll cat existing = (reconcileSelectionFromText cat (out_text out1), Some out1) \<and>
           undo out1 = push_bounded (undo (ensureOutputEntry existing)) (text_of existing)"
proof (cases "length (options cat) = 0")
  case True
  with assms show ?thesis by (simp add: toggleAll_def)
next
  case False
  with assms show ?thesis by (simp add: toggleAll_def pushed_allclear)
qed

lemma pushed_input:
  assumes "lastValue (ensureOutputEntry existing) = text_of existing"
    and "text_of (snd (textareaInput cat existing v)) \<noteq> text_of existing"
  shows "\<exists>out1. textareaInput cat existing v = (reconcileSelectionFromText cat (out_text out1), Some out1) \<and>
           undo out1 = push_bounded (undo (ensureOutputEntry existing)) (text_of existing)"
  using assms by (auto simp: textareaInput_def Let_def)

lemma pushed_clear:
  "\<exists>out1. clearOutput cat (Some out) = (reconcileSelectionFromText cat (out_text out1), Some out1) \<and>
           undo out1 = push_bounded (undo out) (out_text out)"
  by (simp add: clearOutput_def Let_def pushUndo_def)

lemma clear_None [simp]: "clearOutput cat None = (cat, None)"
  by (simp add: clearOutput_def)

lemma undo_restores:
  assumes "st1 = (reconcileSelectionFromText cat (out_text out1), Some out1)"
    and "undo out1 = push_bounded stack p"
  shows "text_of (snd (perform UndoOutput st1)) = p \<and>
         selected (fst (perform UndoOutput st1)) = present_indices (options cat) p"
  using assms by (simp add: undo_pops selected_reconcile)

lemma perform_not_early:
  assumes "\<not> returns_early g (cat, existing)"
  shows "consistent (perform g (cat, existing))"
proof (cases g)
  case (ToggleOption idx checked)
  with assms show ?thesis by (simp add: toggle_valid Let_def)
next
  case ToggleAll
  with assms show ?thesis by (simp add: toggleAll_def allclear_unfold Let_def)
next
  case (TextInput v)
  then show ?thesis by (simp add: textareaInput_def Let_def)
next
  case ClearOutput
  with assms show ?thesis by (cases existing) (simp_all add: clearOutput_def Let_def)
next
  case UndoOutput
  with assms show ?thesis by (cases existing) (simp_all add: undoOutput_def Let_def)
next
  case (SaveBulk n l)
  then show ?thesis
    by (simp add: saveBulkModal_def Let_def consistent_def selected_reconcile)
qed

lemma perform_writes_synced:
  assumes "\<not> returns_early g (cat, existing)"
    and "g = ToggleOption idx checked \<or> g = ToggleAll \<or> g = TextInput v \<or> g = ClearOutput
         \<or> g = UndoOutput"
  shows "lastValue (ensureOutputEntry (snd (perform g (cat, existing))))
           = text_of (snd (perform g (cat, existing)))"
proof -
  consider (tog) "g = ToggleOption idx checked" | (all) "g = ToggleAll"
    | (inp) "g = TextInput v" | (clr) "g = ClearOutput" | (und) "g = UndoOutput"
    using assms(2) by blast
  then show ?thesis
  proof cases
    case tog
    with assms show ?thesis by (simp add: toggle_valid Let_def)
  next
    case all
    with assms show ?thesis by (simp add: toggleAll_def allclear_unfold Let_def)
  next
    case inp
    then show ?thesis by (simp add: textareaInput_def Let_def)
  next
    case clr
    with assms show ?thesis by (cases existing) (simp_all add: clearOutput_def Let_def)
  next
    case und
    with assms show ?thesis by (cases existing) (simp_all add: undoOutput_def Let_def)
  qed
qed

lemma perform_early:
  assumes "returns_early g (cat, existing)"
  shows "perform g (cat, existing) = (cat, existing) \<or>
         perform g (cat, existing) = (cat, Some (ensureOutputEntry existing))"
proof (cases g)
  case (ToggleOption idx checked)
  with assms show ?thesis by (simp add: toggle_invalid)
next
  case ToggleAll
  with assms show ?thesis by (simp add: toggleAll_def)
next
  case ClearOutput
  with assms show ?thesis by simp
next
  case UndoOutput
  with assms show ?thesis by (cases existing) (simp_all add: undoOutput_def)
qed (use assms in simp_all)

lemma perform_early_text:
  assumes "returns_early g (cat, existing)"
  shows "fst (perform g (cat, existing)) = cat"
    and "text_of (snd (perform g (cat, existing))) = text_of existing"
  using perform_early [OF assms] by auto

lemma pushed_input_lastValue:
  assumes "lastValue (ensureOutputEntry existing) \<noteq> v"
  shows "\<exists>out1. textareaInput cat existing v
                  = (reconcileSelectionFromText cat (out_text out1), Some out1) \<and>
           undo out1 = push_bounded (undo (ensureOutputEntry existing))
                         (lastValue (ensureOutputEntry existing))"
  using assms by (simp add: textareaInput_def Let_def)

lemma input_no_push:
  "lastValue (ensureOutputEntry existing) = v \<Longrightarrow>
     snd (textareaInput cat existing v)
       = Some ((ensureOutputEntry existing)\<lparr>out_text := v, dirty := True\<rparr>)"
  by (simp add: textareaInput_def Let_def)

text \<open>
  C8 as stated fails for a direct edit of an entry whose \<open>lastValue\<close> is not its text,
  as a stored entry may be: with the text \<open>a\<close> and \<open>lastValue\<close> \<open>z\<close>, typing \<open>b\<close> pushes
  \<open>z\<close>, and the undo restores \<open>z\<close>, not the prior text \<open>a\<close>.
\<close>

theorem undo_restores_prior_text_counterexample:
  "text_of (Some (entry (js ''a'') True [] (js ''z''))) = js ''a'' \<and>
   snd (perform (TextInput (js ''b''))
          (style_category [js ''a''] [0], Some (entry (js ''a'') True [] (js ''z''))))
     = Some (entry (js ''b'') True [js ''z''] (js ''b'')) \<and>
   text_of (snd (perform UndoOutput (perform (TextInput (js ''b''))
          (style_category [js ''a''] [0], Some (entry (js ''a'') True [] (js ''z''))))))
     = js ''z'' \<and>
   js ''z'' \<noteq> js ''a''"
  by (simp add: textareaInput_def undoOutput_def Let_def push_bounded_def js_def
      reconcileSelectionFromText_def)

text \<open>
  C8, amended: after a checkbox toggle, an All/Clear or a clear that pushes onto the undo
  stack (the first two push exactly when they change the text, the clear whenever the
  entry exists), the pushed value is the prior text, and one undo restores that text and
  the selection derived from it. A direct edit pushes exactly when the new value differs
  from \<open>lastValue\<close>; the pushed value is \<open>lastValue\<close>, and one undo restores \<open>lastValue\<close>
  and the selection derived from it. That is the prior text whenever \<open>lastValue\<close> was the
  text, which is how every toggle, All/Clear, edit, clear and undo that does not return
  early leaves the entry. Undo on an empty stack, or without an entry, returns the state
  as it is.
\<close>

theorem undo_restores_prior_text:
  "((g = ToggleOption idx checked \<or> g = ToggleAll \<or> g = ClearOutput) \<and>
    (text_of (snd (perform g (cat, existing))) \<noteq> text_of existing \<or>
     (g = ClearOutput \<and> existing \<noteq> None))
    \<longrightarrow>
      (\<exists>out1. snd (perform g (cat, existing)) = Some out1 \<and>
         undo out1 = push_bounded (undo (ensureOutputEntry existing)) (text_of existing)) \<and>
      text_of (snd (perform UndoOutput (perform g (cat, existing)))) = text_of existing \<and>
      selected (fst (perform UndoOutput (perform g (cat, existing))))
        = present_indices (options cat) (text_of existing)) \<and>
   (lastValue (ensureOutputEntry existing) \<noteq> v
    \<longrightarrow>
      (\<exists>out1. snd (perform (TextInput v) (cat, existing)) = Some out1 \<and>
         undo out1 = push_bounded (undo (ensureOutputEntry existing))
                       (lastValue (ensureOutputEntry existing))) \<and>
      text_of (snd (perform UndoOutput (perform (TextInput v) (cat, existing))))
        = lastValue (ensureOutputEntry existing) \<and>
      selected (fst (perform UndoOutput (perform (TextInput v) (cat, existing))))
        = present_indices (options cat) (lastValue (ensureOutputEntry existing))) \<and>
   (lastValue (ensureOutputEntry existing) = v
    \<longrightarrow>
      snd (perform (TextInput v) (cat, existing))
        = Some ((ensureOutputEntry existing)\<lparr>out_text := v, dirty := True\<rparr>)) \<and>
   ((g = ToggleOption idx checked \<or> g = ToggleAll \<or> g = TextInput v \<or> g = ClearOutput
     \<or> g = UndoOutput) \<and> \<not> returns_early g (cat, existing)
    \<longrightarrow>
      lastValue (ensureOutputEntry (snd (perform g (cat, existing))))
        = text_of (snd (perform g (cat, existing)))) \<and>
   (undo out = [] \<longrightarrow> perform UndoOutput (cat, Some out) = (cat, Some out)) \<and>
   perform UndoOutput (cat, None) = (cat, None)"
proof (intro conjI impI)
  assume hyp: "(g = ToggleOption idx checked \<or> g = ToggleAll \<or> g = ClearOutput) \<and>
    (text_of (snd (perform g (cat, existing))) \<noteq> text_of existing \<or>
     (g = ClearOutput \<and> existing \<noteq> None))"
  have "\<exists>out1. perform g (cat, existing)
                  = (reconcileSelectionFromText cat (out_text out1), Some out1) \<and>
           undo out1 = push_bounded (undo (ensureOutputEntry existing)) (text_of existing)"
  proof -
    consider (tog) "g = ToggleOption idx checked" | (all) "g = ToggleAll"
      | (clr) "g = ClearOutput" using hyp by blast
    then show ?thesis
    proof cases
      case tog with hyp show ?thesis by (simp add: pushed_toggle)
    next
      case all with hyp show ?thesis by (simp add: pushed_toggleAll)
    next
      case c: clr
      with hyp obtain out0 where "existing = Some out0" by (cases existing) auto
      with c show ?thesis using pushed_clear [of cat out0] by simp
    qed
  qed
  then obtain out1 where
    p: "perform g (cat, existing) = (reconcileSelectionFromText cat (out_text out1), Some out1)"
    and u: "undo out1 = push_bounded (undo (ensureOutputEntry existing)) (text_of existing)"
    by blast
  from p u show "\<exists>out1. snd (perform g (cat, existing)) = Some out1 \<and>
         undo out1 = push_bounded (undo (ensureOutputEntry existing)) (text_of existing)"
    by simp
  from undo_restores [OF p u]
  show "text_of (snd (perform UndoOutput (perform g (cat, existing)))) = text_of existing"
    and "selected (fst (perform UndoOutput (perform g (cat, existing))))
        = present_indices (options cat) (text_of existing)"
    by simp_all
next
  assume "lastValue (ensureOutputEntry existing) \<noteq> v"
  then obtain out1 where
    p: "perform (TextInput v) (cat, existing)
          = (reconcileSelectionFromText cat (out_text out1), Some out1)"
    and u: "undo out1 = push_bounded (undo (ensureOutputEntry existing))
                          (lastValue (ensureOutputEntry existing))"
    using pushed_input_lastValue [of existing v cat] by auto
  from p u show "\<exists>out1. snd (perform (TextInput v) (cat, existing)) = Some out1 \<and>
         undo out1 = push_bounded (undo (ensureOutputEntry existing))
                       (lastValue (ensureOutputEntry existing))"
    by simp
  from undo_restores [OF p u]
  show "text_of (snd (perform UndoOutput (perform (TextInput v) (cat, existing))))
        = lastValue (ensureOutputEntry existing)"
    and "selected (fst (perform UndoOutput (perform (TextInput v) (cat, existing))))
        = present_indices (options cat) (lastValue (ensureOutputEntry existing))"
    by simp_all
next
  assume "lastValue (ensureOutputEntry existing) = v"
  then show "snd (perform (TextInput v) (cat, existing))
        = Some ((ensureOutputEntry existing)\<lparr>out_text := v, dirty := True\<rparr>)"
    by (simp add: input_no_push)
next
  assume "(g = ToggleOption idx checked \<or> g = ToggleAll \<or> g = TextInput v \<or> g = ClearOutput
     \<or> g = UndoOutput) \<and> \<not> returns_early g (cat, existing)"
  then show "lastValue (ensureOutputEntry (snd (perform g (cat, existing))))
        = text_of (snd (perform g (cat, existing)))"
    using perform_writes_synced [of g cat existing idx checked v] by blast
next
  assume "undo out = []"
  then show "perform UndoOutput (cat, Some out) = (cat, Some out)"
    by (simp add: undoOutput_def)
next
  show "perform UndoOutput (cat, None) = (cat, None)"
    by (simp add: undoOutput_def)
qed

text \<open>
  C8, amended, at a category with the options \<open>a\<close> and \<open>b\<close> whose text is \<open>b\<close>: ticking
  \<open>a\<close> pushes \<open>b\<close> and gives \<open>b, a\<close>, and one undo gives \<open>b\<close> back, with index 1
  selected; so does one undo after typing \<open>b, c\<close>. Undo on the entry with an empty stack
  returns it as it is.
\<close>

theorem undo_restores_prior_text_witness:
  "text_of (snd (perform (ToggleOption 0 True)
      (style_category [js ''a'', js ''b''] [1],
       Some (entry (js ''b'') True [js ''x''] (js ''b'')))))
     = js ''b, a'' \<and>
   text_of (snd (perform UndoOutput (perform (ToggleOption 0 True)
      (style_category [js ''a'', js ''b''] [1],
       Some (entry (js ''b'') True [js ''x''] (js ''b''))))))
     = js ''b'' \<and>
   selected (fst (perform UndoOutput (perform (ToggleOption 0 True)
      (style_category [js ''a'', js ''b''] [1],
       Some (entry (js ''b'') True [js ''x''] (js ''b''))))))
     = [1] \<and>
   lastValue (entry (js ''b'') True [js ''x''] (js ''b'')) \<noteq> js ''b, c'' \<and>
   text_of (snd (perform UndoOutput (perform (TextInput (js ''b, c''))
      (style_category [js ''a'', js ''b''] [1],
       Some (entry (js ''b'') True [js ''x''] (js ''b''))))))
     = js ''b'' \<and>
   selected (fst (perform UndoOutput (perform (TextInput (js ''b, c''))
      (style_category [js ''a'', js ''b''] [1],
       Some (entry (js ''b'') True [js ''x''] (js ''b''))))))
     = [1] \<and>
   \<not> returns_early (ToggleOption 0 True)
      (style_category [js ''a'', js ''b''] [1],
       Some (entry (js ''b'') True [js ''x''] (js ''b''))) \<and>
   perform UndoOutput
      (style_category [js ''a'', js ''b''] [1], Some (entry (js ''b'') True [] (js ''b'')))
     = (style_category [js ''a'', js ''b''] [1], Some (entry (js ''b'') True [] (js ''b'')))"
proof -
  have t: "text_of (snd (perform (ToggleOption 0 True)
      (style_category [js ''a'', js ''b''] [1],
       Some (entry (js ''b'') True [js ''x''] (js ''b'')))))
     = js ''b, a''"
    by (simp add: applyLeftToggle_def Let_def token_eval)
  have p: "present_indices [js ''a'', js ''b''] (js ''b'') = [1]"
    by (simp add: present_indices_def token_eval upt_rec)
  have n: "js ''b, a'' \<noteq> js ''b''" "js ''b'' \<noteq> js ''b, c''" "js ''a'' \<noteq> []"
    by (simp_all add: js_def)
  show ?thesis
    using t p n undo_restores_prior_text
      [where existing = "Some (entry (js ''b'') True [js ''x''] (js ''b''))"
         and g = "ToggleOption 0 True" and idx = 0 and checked = True
         and v = "js ''b, c''"
         and cat = "style_category [js ''a'', js ''b''] [1]"
         and out = "entry (js ''b'') True [] (js ''b'')"]
    by simp
qed

lemma perform_synced:
  assumes "lastValue (ensureOutputEntry existing) = text_of existing"
  shows "lastValue (ensureOutputEntry (snd (perform g (cat, existing))))
           = text_of (snd (perform g (cat, existing)))"
proof (cases g)
  case (ToggleOption idx checked)
  with assms show ?thesis
    by (cases "idx < length (options cat) \<and> options cat ! idx \<noteq> []")
       (simp_all add: toggle_valid toggle_invalid Let_def)
next
  case ToggleAll
  with assms show ?thesis by (simp add: toggleAll_def allclear_unfold Let_def)
next
  case (TextInput v)
  with assms show ?thesis by (simp add: textareaInput_def Let_def)
next
  case ClearOutput
  with assms show ?thesis by (cases existing) (simp_all add: clearOutput_def Let_def)
next
  case UndoOutput
  with assms show ?thesis by (cases existing) (simp_all add: undoOutput_def Let_def)
next
  case (SaveBulk n l)
  with assms show ?thesis by (simp add: saveBulkModal_def Let_def)
qed

lemma fresh_synced: "lastValue (ensureOutputEntry None) = text_of None"
  by (simp add: ensureOutputEntry_def text_of_def)

subsection \<open>Selection and text\<close>

lemma init_reconciles:
  "(text_of existing \<noteq> [] \<longrightarrow> consistent (init_category cat existing)) \<and>
   (text_of existing = [] \<longrightarrow> fst (init_category cat existing) = cat) \<and>
   text_of (snd (init_category cat existing)) = text_of existing"
  by (simp add: init_category_def Let_def)

text \<open>
  C3 as stated fails at startup: a stored category with the option \<open>a\<close> and the
  selection \<open>[0]\<close>, for which no output text is stored, keeps that selection although
  its text is empty.
\<close>

theorem selection_follows_text_counterexample:
  "init_category
     (style_category [js ''a''] [0]) None
     = ((style_category [js ''a''] [0]),
        Some (entry [] False [] [])) \<and>
   present_indices [js ''a''] [] = [] \<and>
   \<not> consistent (init_category
     (style_category [js ''a''] [0]) None)"
  by (simp add: init_category_def Let_def ensureOutputEntry_def consistent_def
      present_indices_def hasOptionToken_def)

text \<open>
  C3, amended: a checkbox toggle, All/Clear, direct text edit, clear, undo or bulk
  option-list edit leaves the category with exactly the selection that its text
  determines (the indices, in increasing order, of the options present as tokens),
  except in the four cases where the handler returns early: a toggle whose index has no
  option or an empty one, All/Clear on a category without options, a clear without an
  output entry, an undo without an entry or with an empty stack. In those cases the
  category and its text stay as they were (at most the missing entry is created), so a
  selection that agrees with the text keeps agreeing. The startup load replaces the
  stored selection by the one the stored text determines when that text is not empty,
  and otherwise keeps the stored selection as it is.
\<close>

theorem selection_follows_text:
  "(\<not> returns_early g (cat, existing) \<longrightarrow> consistent (perform g (cat, existing))) \<and>
   (returns_early g (cat, existing) \<longrightarrow>
      (perform g (cat, existing) = (cat, existing) \<or>
       perform g (cat, existing) = (cat, Some (ensureOutputEntry existing))) \<and>
      fst (perform g (cat, existing)) = cat \<and>
      text_of (snd (perform g (cat, existing))) = text_of existing) \<and>
   (consistent (cat, existing) \<longrightarrow> consistent (perform g (cat, existing))) \<and>
   (text_of existing \<noteq> [] \<longrightarrow> consistent (init_category cat existing)) \<and>
   (text_of existing = [] \<longrightarrow> fst (init_category cat existing) = cat) \<and>
   text_of (snd (init_category cat existing)) = text_of existing"
proof -
  have inv: "consistent (perform g (cat, existing))" if c: "consistent (cat, existing)"
  proof (cases "returns_early g (cat, existing)")
    case True
    from perform_early_text [OF True] c show ?thesis by (simp add: consistent_def)
  next
    case False
    then show ?thesis by (rule perform_not_early)
  qed
  show ?thesis
    using inv perform_not_early [of g cat existing] perform_early [of g cat existing]
      perform_early_text [of g cat existing] init_reconciles [of existing cat]
    by blast
qed

text \<open>
  C3, amended, at a category with the options \<open>a\<close> and \<open>b\<close>: a clear replaces the
  stale selection \<open>[0]\<close> by the empty one, a direct edit to \<open>b, a\<close> selects both, an undo
  on an empty stack returns early and changes nothing, and the startup load with the
  stored text \<open>b\<close> selects index 1.
\<close>

theorem selection_follows_text_witness:
  "\<not> returns_early (ClearOutput)
      (style_category [js ''a'', js ''b''] [0], Some (entry [] False [] [])) \<and>
   selected (fst (perform ClearOutput
      (style_category [js ''a'', js ''b''] [0], Some (entry [] False [] [])))) = [] \<and>
   consistent (perform ClearOutput
      (style_category [js ''a'', js ''b''] [0], Some (entry [] False [] []))) \<and>
   selected (fst (perform (TextInput (js ''b, a''))
      (style_category [js ''a'', js ''b''] [0], Some (entry (js ''b'') False [] (js ''b'')))))
     = [0, 1] \<and>
   returns_early UndoOutput
      (style_category [js ''a'', js ''b''] [1], Some (entry (js ''b'') False [] (js ''b''))) \<and>
   perform UndoOutput
      (style_category [js ''a'', js ''b''] [1], Some (entry (js ''b'') False [] (js ''b'')))
     = (style_category [js ''a'', js ''b''] [1], Some (entry (js ''b'') False [] (js ''b''))) \<and>
   consistent
      (style_category [js ''a'', js ''b''] [1], Some (entry (js ''b'') False [] (js ''b''))) \<and>
   text_of (Some (entry (js ''b'') False [] (js ''b''))) \<noteq> [] \<and>
   selected (fst (init_category (style_category [js ''a'', js ''b''] [0])
      (Some (entry (js ''b'') False [] (js ''b''))))) = [1] \<and>
   consistent (init_category (style_category [js ''a'', js ''b''] [0])
      (Some (entry (js ''b'') False [] (js ''b''))))"
proof -
  have p0: "present_indices [js ''a'', js ''b''] [] = []"
    by (simp add: present_indices_def hasOptionToken_def)
  have p1: "present_indices [js ''a'', js ''b''] (js ''b, a'') = [0, 1]"
    by (simp add: present_indices_def token_eval upt_rec)
  have p2: "present_indices [js ''a'', js ''b''] (js ''b'') = [1]"
    by (simp add: present_indices_def token_eval upt_rec)
  have n: "js ''b'' \<noteq> []" by (simp add: js_def)
  show ?thesis
    using p0 p1 p2 n
      selection_follows_text
        [where g = ClearOutput and cat = "style_category [js ''a'', js ''b''] [0]"
           and existing = "Some (entry [] False [] [])"]
      selection_follows_text
        [where g = "TextInput (js ''b, a'')" and cat = "style_category [js ''a'', js ''b''] [0]"
           and existing = "Some (entry (js ''b'') False [] (js ''b''))"]
      selection_follows_text
        [where g = UndoOutput and cat = "style_category [js ''a'', js ''b''] [1]"
           and existing = "Some (entry (js ''b'') False [] (js ''b''))"]
    by (simp add: textareaInput_def clearOutput_def undoOutput_def init_category_def Let_def
        selected_reconcile consistent_def)
qed

subsection \<open>Saving a snapshot\<close>

lemma digit_is_digit:
  assumes "d < 10"
  shows "is_digit (digit d)"
proof -
  have "unat (of_nat (48 + d) :: 16 word) = (48 + d) mod 2 ^ 16"
    by (simp only: unat_of_nat len_of_numeral_defs) simp
  with assms have u: "unat (digit d) = 48 + d"
    by (simp add: digit_def del: of_nat_add)
  have "unat (0x30 :: 16 word) = 48" "unat (0x39 :: 16 word) = 57" by simp_all
  with u assms show ?thesis
    unfolding is_digit_def word_le_nat_alt by simp
qed

lemma pad_decimal:
  assumes "n < 100"
  shows "\<exists>a b. padStart2 (decimal n) = [a, b] \<and> is_digit a \<and> is_digit b"
proof (cases "n < 10")
  case True
  then show ?thesis by (simp add: padStart2_def digit_is_digit)
next
  case False
  with assms have "n div 10 < 10" "n mod 10 < 10" by simp_all
  with False show ?thesis by (simp add: padStart2_def digit_is_digit)
qed

lemma nowTime_shape:
  assumes "hours clk < 24" "minutes clk < 60" "seconds clk < 60"
  shows "is_hhmmss (nowTime clk)"
proof -
  obtain a b where h: "padStart2 (decimal (hours clk)) = [a, b]" "is_digit a" "is_digit b"
    using pad_decimal [of "hours clk"] assms by auto
  obtain c d where m: "padStart2 (decimal (minutes clk)) = [c, d]" "is_digit c" "is_digit d"
    using pad_decimal [of "minutes clk"] assms by auto
  obtain e f where s: "padStart2 (decimal (seconds clk)) = [e, f]" "is_digit e" "is_digit f"
    using pad_decimal [of "seconds clk"] assms by auto
  show ?thesis
    unfolding nowTime_def h m s by (simp add: is_hhmmss_def js_def h m s)
qed

lemma getHistory_setHistory [simp]: "getHistory (setHistory store clk list) clk = list"
  by (simp add: getHistory_def setHistory_def)

lemma getHistory_same_day:
  "todayKey clk' = todayKey clk \<Longrightarrow> getHistory store clk' = getHistory store clk"
  by (simp add: getHistory_def historyKey_def)

lemma getHistory_setHistory_same_day:
  "todayKey clk' = todayKey clk \<Longrightarrow> getHistory (setHistory store clk list) clk' = list"
  by (simp add: getHistory_def setHistory_def historyKey_def)

lemma getHistory_empty [simp]: "getHistory Map.empty clk = []"
  by (simp add: getHistory_def)

lemma save_empty:
  "trim summaryValue = [] \<Longrightarrow>
     saveSnapshot summaryValue randomHex clk store =
       (Some (js ''Nothing to save yet. Select some options first.''), store)"
  by (simp add: saveSnapshot_def)

lemma save_nonempty:
  "trim summaryValue \<noteq> [] \<Longrightarrow>
     saveSnapshot summaryValue randomHex clk store =
       (None, setHistory store clk
          (\<lparr>hid = js ''h_'' @ take 8 (drop 2 randomHex), htime = nowTime clk,
            htext = trim summaryValue\<rparr> # getHistory store clk))"
  by (simp add: saveSnapshot_def Let_def)

text \<open>
  C9 as stated promises a fresh id. The id is \<open>h_\<close> followed by characters of the random
  number's hexadecimal expansion, and nothing compares it with the ids in the log: when
  \<^verbatim>\<open>Math.random()\<close> gives 0.5 (in base 16, \<open>0.8\<close>) for two saves, both entries get the id
  \<open>h_8\<close>.
\<close>

theorem saveSnapshot_fresh_id_counterexample:
  "map hid (getHistory
      (snd (saveSnapshot (js ''b'') (js ''0.8'')
              (morning 31)
              (snd (saveSnapshot (js ''a'') (js ''0.8'')
                      (morning 30)
                      Map.empty))))
      (morning 31))
   = [js ''h_8'', js ''h_8'']"
proof -
  have a: "trim (js ''a'') = js ''a''" "trim (js ''b'') = js ''b''" by (simp_all add: token_eval)
  have n: "js ''a'' \<noteq> []" "js ''b'' \<noteq> []" by (simp_all add: js_def)
  have k: "todayKey (morning 31)
         = todayKey (morning 30)"
    by (simp add: todayKey_def)
  have i: "js ''h_'' @ take 8 (drop 2 (js ''0.8'')) = js ''h_8''" by (simp add: js_def)
  show ?thesis
    using a n by (simp add: save_nonempty getHistory_setHistory_same_day [OF k] i)
qed

text \<open>
  C9, amended: \<open>saveSnapshot\<close> fails, with the alert as the reason and with the storage
  untouched, if and only if the trimmed summary is empty. Otherwise it puts exactly one
  entry at the head of the current day's log and leaves every other key alone; the entry
  has the trimmed summary as its text, the clock's time as \<^verbatim>\<open>HH:MM:SS\<close>, and the id
  \<open>h_\<close> followed by the (at most eight) characters after the first two of the random
  number's hexadecimal expansion, which is new but is not compared with the ids already
  in the log. Two saves on one day leave the later entry first.
\<close>

theorem saveSnapshot_spec:
  "(fst (saveSnapshot summaryValue randomHex clk store) \<noteq> None \<longleftrightarrow> trim summaryValue = []) \<and>
   (trim summaryValue = [] \<longrightarrow>
      saveSnapshot summaryValue randomHex clk store =
        (Some (js ''Nothing to save yet. Select some options first.''), store)) \<and>
   (trim summaryValue \<noteq> [] \<longrightarrow>
      getHistory (snd (saveSnapshot summaryValue randomHex clk store)) clk =
        \<lparr>hid = js ''h_'' @ take 8 (drop 2 randomHex), htime = nowTime clk,
          htext = trim summaryValue\<rparr> # getHistory store clk \<and>
      (\<forall>key. key \<noteq> historyKey clk \<longrightarrow>
         snd (saveSnapshot summaryValue randomHex clk store) key = store key)) \<and>
   (hours clk < 24 \<and> minutes clk < 60 \<and> seconds clk < 60 \<longrightarrow> is_hhmmss (nowTime clk)) \<and>
   (trim summaryValue \<noteq> [] \<and> trim summaryValue' \<noteq> [] \<and> todayKey clk' = todayKey clk \<longrightarrow>
      getHistory (snd (saveSnapshot summaryValue' randomHex' clk'
                         (snd (saveSnapshot summaryValue randomHex clk store)))) clk' =
        [\<lparr>hid = js ''h_'' @ take 8 (drop 2 randomHex'), htime = nowTime clk',
           htext = trim summaryValue'\<rparr>,
         \<lparr>hid = js ''h_'' @ take 8 (drop 2 randomHex), htime = nowTime clk,
           htext = trim summaryValue\<rparr>] @ getHistory store clk)"
proof (intro conjI impI allI)
  show "fst (saveSnapshot summaryValue randomHex clk store) \<noteq> None \<longleftrightarrow> trim summaryValue = []"
    by (cases "trim summaryValue = []") (simp_all add: save_empty save_nonempty)
next
  assume "trim summaryValue = []"
  then show "saveSnapshot summaryValue randomHex clk store =
        (Some (js ''Nothing to save yet. Select some options first.''), store)"
    by (rule save_empty)
next
  assume "trim summaryValue \<noteq> []"
  then show "getHistory (snd (saveSnapshot summaryValue randomHex clk store)) clk =
        \<lparr>hid = js ''h_'' @ take 8 (drop 2 randomHex), htime = nowTime clk,
          htext = trim summaryValue\<rparr> # getHistory store clk"
    by (simp add: save_nonempty)
next
  fix key
  assume "trim summaryValue \<noteq> []" "key \<noteq> historyKey clk"
  then show "snd (saveSnapshot summaryValue randomHex clk store) key = store key"
    by (simp add: save_nonempty setHistory_def)
next
  assume "hours clk < 24 \<and> minutes clk < 60 \<and> seconds clk < 60"
  then show "is_hhmmss (nowTime clk)" by (simp add: nowTime_shape)
next
  assume "trim summaryValue \<noteq> [] \<and> trim summaryValue' \<noteq> [] \<and> todayKey clk' = todayKey clk"
  then show "getHistory (snd (saveSnapshot summaryValue' randomHex' clk'
                         (snd (saveSnapshot summaryValue randomHex clk store)))) clk' =
        [\<lparr>hid = js ''h_'' @ take 8 (drop 2 randomHex'), htime = nowTime clk',
           htext = trim summaryValue'\<rparr>,
         \<lparr>hid = js ''h_'' @ take 8 (drop 2 randomHex), htime = nowTime clk,
           htext = trim summaryValue\<rparr>] @ getHistory store clk"
    by (simp add: save_nonempty getHistory_setHistory_same_day)
qed

text \<open>
  C9, amended, at the summaries \<open>a\<close> (with surrounding blanks) and \<open>b\<close>, saved one second
  apart into an empty storage, and at a summary of blanks only.
\<close>

theorem saveSnapshot_spec_witness:
  "trim (js '' a '') \<noteq> [] \<and> trim (js ''b'') \<noteq> [] \<and> trim (js ''  '') = [] \<and>
   getHistory (snd (saveSnapshot (js ''b'') (js ''0.1f3a5c7e9b2d4'')
        (morning 31)
        (snd (saveSnapshot (js '' a '') (js ''0.8'')
           (morning 30)
           Map.empty))))
     (morning 31)
   = [\<lparr>hid = js ''h_1f3a5c7e'', htime = js ''09:05:31'', htext = js ''b''\<rparr>,
      \<lparr>hid = js ''h_8'', htime = js ''09:05:30'', htext = js ''a''\<rparr>] \<and>
   fst (saveSnapshot (js ''  '') (js ''0.8'')
        (morning 30)
        Map.empty)
   = Some (js ''Nothing to save yet. Select some options first.'') \<and>
   is_hhmmss (nowTime (morning 30))"
proof -
  have t: "trim (js '' a '') = js ''a''" "trim (js ''b'') = js ''b''" "trim (js ''  '') = []"
    by (simp_all add: token_eval)
  have n: "js ''a'' \<noteq> []" "js ''b'' \<noteq> []" by (simp_all add: js_def)
  have k: "todayKey (morning 31)
         = todayKey (morning 30)"
    by (simp add: todayKey_def)
  have i: "js ''h_'' @ take 8 (drop 2 (js ''0.8'')) = js ''h_8''"
    "js ''h_'' @ take 8 (drop 2 (js ''0.1f3a5c7e9b2d4'')) = js ''h_1f3a5c7e''"
    by (simp_all add: js_def)
  have c: "nowTime (morning 30)
             = js ''09:05:30''"
    "nowTime (morning 31)
             = js ''09:05:31''"
    by (simp_all add: nowTime_def padStart2_def digit_def js_def)
  have e: "getHistory Map.empty
      (morning 30) = []"
    by (simp add: getHistory_def)
  show ?thesis
    using t n k i c e
      saveSnapshot_spec
        [where summaryValue = "js '' a ''" and randomHex = "js ''0.8''"
           and clk = "morning 30"
           and store = Map.empty
           and summaryValue' = "js ''b''" and randomHex' = "js ''0.1f3a5c7e9b2d4''"
           and clk' = "morning 31"]
      saveSnapshot_spec
        [where summaryValue = "js ''  ''" and randomHex = "js ''0.8''"
           and clk = "morning 30"
           and store = Map.empty
           and summaryValue' = "js ''b''" and randomHex' = "js ''0.8''"
           and clk' = "morning 31"]
    by simp
qed

subsection \<open>Toggling an option on and off\<close>

lemma lit_Some_iff: "lit p s = Some r \<longleftrightarrow> s = p @ r"
  by (induction p s rule: lit.induct) auto

lemma ws_lit_SomeD:
  "ws_lit p s = Some r \<Longrightarrow> \<exists>ws. s = ws @ p @ r \<and> (\<forall>c \<in> set ws. is_space c)"
proof (induction p s rule: ws_lit.induct)
  case (1 opt)
  then have "[] = [] @ opt @ r" by (simp add: lit_Some_iff)
  then show ?case by (metis empty_iff empty_set)
next
  case (2 opt c cs)
  show ?case
  proof (cases "is_space c \<and> ws_lit opt cs \<noteq> None")
    case True
    with "2.prems" have "ws_lit opt cs = Some r" by auto
    with "2.IH" True obtain ws where "cs = ws @ opt @ r" "\<forall>c \<in> set ws. is_space c" by blast
    with True have "c # cs = (c # ws) @ opt @ r \<and> (\<forall>x \<in> set (c # ws). is_space x)" by simp
    then show ?thesis by blast
  next
    case False
    with "2.prems" have "lit opt (c # cs) = Some r" by (auto split: if_splits)
    then have "c # cs = [] @ opt @ r" by (simp add: lit_Some_iff)
    then show ?thesis by (metis empty_iff empty_set)
  qed
qed

lemma ws_lit_self:
  "opt \<noteq> [] \<Longrightarrow> \<not> is_space (hd opt) \<Longrightarrow> ws_lit opt (opt @ r) = Some r"
  by (cases opt) simp_all

lemma sublist_butlast_middle:
  "r \<noteq> [] \<Longrightarrow> sublist p (butlast (ws @ p @ r))"
  by (simp add: butlast_append)

lemma opt_ahead_sublist: "opt_ahead opt s \<Longrightarrow> sublist opt s"
  by (auto simp: opt_ahead_def lit_Some_iff split: option.splits)

lemma ws_opt_ahead_sublist: "ws_opt_ahead opt s \<Longrightarrow> sublist opt s"
  by (induction s) (auto simp: sublist_Cons_right dest: opt_ahead_sublist)

lemma token_after_sep_sublist: "token_after_sep opt s \<Longrightarrow> sublist opt s"
  by (induction s) (auto simp: sublist_Cons_right dest: ws_opt_ahead_sublist)

lemma hasOptionToken_sublist: "hasOptionToken t opt \<Longrightarrow> sublist opt (trim t)"
  by (auto simp: hasOptionToken_def tokenRegex_test_def Let_def split: if_splits
      dest: opt_ahead_sublist token_after_sep_sublist)

lemma remove_elsewhere_appended:
  assumes "opt \<noteq> []" "\<not> is_space (hd opt)"
    and "\<not> sublist opt (butlast (xs @ [comma, blank] @ opt))"
  shows "remove_elsewhere opt (xs @ [comma, blank] @ opt) = xs"
  using assms(3)
proof (induction xs)
  case Nil
  have "ws_lit opt (blank # opt) = Some []"
    using ws_lit_self [OF assms(1,2), of "[]"] by simp
  then show ?case by simp
next
  case (Cons x xs)
  let ?rest = "xs @ [comma, blank] @ opt"
  have b: "butlast ((x # xs) @ [comma, blank] @ opt) = x # butlast ?rest" by simp
  from Cons.prems have ns: "\<not> sublist opt (butlast ?rest)"
    unfolding b by (simp add: sublist_Cons_right)
  then have ih: "remove_elsewhere opt ?rest = xs" by (rule Cons.IH)
  have none: "ws_lit opt ?rest = None"
  proof (rule ccontr)
    assume "ws_lit opt ?rest \<noteq> None"
    then obtain r where "ws_lit opt ?rest = Some r" by auto
    then obtain ws where w: "?rest = ws @ opt @ r" "\<forall>c \<in> set ws. is_space c"
      using ws_lit_SomeD by blast
    show False
    proof (cases "r = []")
      case True
      with w have "(xs @ [comma, blank]) @ opt = ws @ opt" by simp
      then have "ws = xs @ [comma, blank]" by simp
      with w(2) show False by simp
    next
      case False
      then have "sublist opt (butlast (ws @ opt @ r))" by (rule sublist_butlast_middle)
      with w ns show False by simp
    qed
  qed
  show ?case using ih none by simp
qed

lemma remove_at_start_appended:
  assumes "\<not> sublist opt (butlast (t @ [comma, blank] @ opt))"
  shows "remove_at_start opt (t @ [comma, blank] @ opt) = t @ [comma, blank] @ opt"
proof -
  have "lit opt (t @ [comma, blank] @ opt) = None"
  proof (rule ccontr)
    assume "lit opt (t @ [comma, blank] @ opt) \<noteq> None"
    then obtain r where r: "t @ [comma, blank] @ opt = opt @ r"
      by (auto simp: lit_Some_iff)
    then have "length (t @ [comma, blank] @ opt) = length (opt @ r)" by simp
    then have "length r = length t + 2" by simp
    then have "r \<noteq> []" by auto
    then have "sublist opt (butlast ([] @ opt @ r))" by (rule sublist_butlast_middle)
    with r assms show False by simp
  qed
  then show ?thesis by (simp add: remove_at_start_def)
qed

lemma length_strip_leading_sep:
  "strip_leading_sep s = s \<or> length (strip_leading_sep s) < length s"
proof (cases "dropWhile is_space s")
  case Nil
  show ?thesis unfolding strip_leading_sep_def Nil by simp
next
  case (Cons c r)
  have "length (dropWhile is_space r) \<le> length r" by (rule length_dropWhile_le)
  moreover have "length (c # r) \<le> length s"
    using length_dropWhile_le [of is_space s] unfolding Cons by simp
  ultimately show ?thesis unfolding strip_leading_sep_def Cons by simp
qed

lemma length_strip_trailing_sep:
  "strip_trailing_sep s = s \<or> length (strip_trailing_sep s) < length s"
  by (induction s) auto

lemma length_collapse_commas: "length (collapse_commas s) \<le> length s"
proof (induction s rule: collapse_commas.induct)
  case 1
  then show ?case by simp
next
  case (2 c cs)
  show ?case
  proof (cases "c = comma")
    case False
    with 2 show ?thesis by simp
  next
    case True
    show ?thesis
    proof (cases "dropWhile is_space cs")
      case Nil
      have "collapse_commas (c # cs) = c # collapse_commas cs"
        using True unfolding collapse_commas.simps Nil by simp
      moreover have "length (collapse_commas cs) \<le> length cs"
        using "2.IH"(1) True Nil by simp
      ultimately show ?thesis by simp
    next
      case (Cons d r)
      show ?thesis
      proof (cases "d = comma")
        case False
        have "collapse_commas (c # cs) = c # collapse_commas cs"
          using True False unfolding collapse_commas.simps Cons by simp
        moreover have "length (collapse_commas cs) \<le> length cs"
          using "2.IH"(3) True Cons False by simp
        ultimately show ?thesis by simp
      next
        case d: True
        have e: "collapse_commas (c # cs)
                   = [comma, blank] @ collapse_commas (dropWhile (\<lambda>x. x = comma) r)"
          using True d unfolding collapse_commas.simps Cons by simp
        have "length (collapse_commas (dropWhile (\<lambda>x. x = comma) r))
                \<le> length (dropWhile (\<lambda>x. x = comma) r)"
          using "2.IH"(2) True Cons d by simp
        moreover have "length (dropWhile (\<lambda>x. x = comma) r) \<le> length r"
          by (rule length_dropWhile_le)
        moreover have "length (d # r) \<le> length cs"
          using length_dropWhile_le [of is_space cs] unfolding Cons by simp
        ultimately show ?thesis unfolding e by simp
      qed
    qed
  qed
qed

lemma length_collapse_spaces: "length (collapse_spaces s) \<le> length s"
proof (induction s rule: collapse_spaces.induct)
  case (3 c d cs)
  have "length (dropWhile is_space cs) \<le> length cs" by (rule length_dropWhile_le)
  with 3 show ?case by (cases "is_space c \<and> is_space d") auto
qed simp_all

lemma length_trim: "length (trim s) \<le> length s"
  using length_dropWhile_le [of is_space "rev (dropWhile is_space s)"]
    length_dropWhile_le [of is_space s]
  by (simp add: trim_def)

lemma tidy_fixed_steps:
  assumes "tidy t = t"
  shows "strip_leading_sep t = t" and "strip_trailing_sep t = t" and "trim t = t"
proof -
  let ?a = "strip_leading_sep t"
  let ?b = "strip_trailing_sep ?a"
  have "length (tidy t) \<le> length ?b"
    unfolding tidy_def
    using length_trim [of "collapse_spaces (collapse_commas ?b)"]
      length_collapse_spaces [of "collapse_commas ?b"] length_collapse_commas [of ?b]
    by linarith
  with assms have l: "length t \<le> length ?b" by simp
  have ba: "?b = ?a \<or> length ?b < length ?a" by (rule length_strip_trailing_sep)
  have at: "?a = t \<or> length ?a < length t" by (rule length_strip_leading_sep)
  from l ba at show a: "?a = t" by auto
  from l ba a show "strip_trailing_sep t = t" by auto
  have "trim (tidy t) = tidy t" by (simp add: tidy_def)
  with assms show "trim t = t" by simp
qed

lemma trim_same_length:
  assumes "length (trim s) = length s"
  shows "trim s = s"
proof -
  have "length (trim s) \<le> length (dropWhile is_space s)"
    using length_dropWhile_le [of is_space "rev (dropWhile is_space s)"]
    by (simp add: trim_def)
  with assms length_dropWhile_le [of is_space s]
  have "length (dropWhile is_space s) = length s" by simp
  then have d: "dropWhile is_space s = s" by (rule dropWhile_same_length)
  with assms have "length (dropWhile is_space (rev s)) = length (rev s)"
    by (simp add: trim_def)
  then have "dropWhile is_space (rev s) = rev s" by (rule dropWhile_same_length)
  with d show ?thesis by (simp add: trim_def)
qed

lemma collapse_spaces_same_length:
  "collapse_spaces s = s \<or> length (collapse_spaces s) < length s"
proof (induction s rule: collapse_spaces.induct)
  case (3 c d cs)
  have "length (collapse_spaces (dropWhile is_space cs)) \<le> length cs"
    using length_collapse_spaces [of "dropWhile is_space cs"]
      length_dropWhile_le [of is_space cs] by linarith
  with 3 show ?case by (cases "is_space c \<and> is_space d") auto
qed simp_all

text \<open>
  A text is left unchanged by the tidy-up exactly when none of its five steps changes
  it.
\<close>

lemma tidy_fixed_iff:
  "tidy t = t \<longleftrightarrow>
     strip_leading_sep t = t \<and> strip_trailing_sep t = t \<and> collapse_commas t = t \<and>
     collapse_spaces t = t \<and> trim t = t"
proof
  assume f: "tidy t = t"
  have s: "strip_leading_sep t = t" "strip_trailing_sep t = t" "trim t = t"
    using tidy_fixed_steps [OF f] by simp_all
  let ?c = "collapse_commas t"
  let ?d = "collapse_spaces ?c"
  from f s have td: "trim ?d = t" by (simp add: tidy_def)
  have "length (trim ?d) \<le> length ?d" "length ?d \<le> length ?c" "length ?c \<le> length t"
    by (rule length_trim, rule length_collapse_spaces, rule length_collapse_commas)
  with td have l: "length ?d = length t" "length ?c = length t" by simp_all
  with td have "trim ?d = ?d" by (intro trim_same_length) simp
  with td have d: "?d = t" by simp
  from l collapse_spaces_same_length [of ?c] have "?d = ?c" by auto
  with d have c: "?c = t" by simp
  with d have "collapse_spaces t = t" by simp
  with s c show "strip_leading_sep t = t \<and> strip_trailing_sep t = t \<and> collapse_commas t = t \<and>
     collapse_spaces t = t \<and> trim t = t" by simp
next
  assume "strip_leading_sep t = t \<and> strip_trailing_sep t = t \<and> collapse_commas t = t \<and>
     collapse_spaces t = t \<and> trim t = t"
  then show "tidy t = t" by (simp add: tidy_def)
qed

lemma strip_trailing_comma_fixed:
  "strip_trailing_sep t = t \<Longrightarrow> strip_trailing_comma t = t"
proof (induction t)
  case Nil
  then show ?case by simp
next
  case (Cons c cs)
  from Cons.prems have n: "\<not> sep_to_end (c # cs)" and s: "strip_trailing_sep cs = cs"
    by (auto split: if_splits)
  from n have "\<not> (c = comma \<and> list_all is_space cs)"
    by (auto simp: sep_to_end_def)
  with Cons.IH s show ?case by auto
qed

lemma remove_after_add:
  assumes "opt \<noteq> []" and "trim opt = opt" and "tidy t = t"
    and "t = [] \<or> \<not> sublist opt (butlast (t @ [comma, blank] @ opt))"
  shows "removeOptionToken (addOptionToken t opt) opt = t"
proof (cases "t = []")
  case True
  with assms have "addOptionToken t opt = opt"
    by (simp add: addOptionToken_def hasOptionToken_def)
  moreover have "remove_at_start opt opt = []" by (simp add: remove_at_start_def)
  ultimately show ?thesis
    using assms True by (simp add: removeOptionToken_def)
next
  case False
  with assms have ns: "\<not> sublist opt (butlast (t @ [comma, blank] @ opt))" by simp
  have tr: "trim t = t" and st: "strip_trailing_sep t = t"
    using tidy_fixed_steps [OF assms(3)] by simp_all
  have hd: "\<not> is_space (hd opt)" using assms by (simp add: trim_fixed_iff)
  have "\<not> sublist opt t"
  proof
    assume "sublist opt t"
    then have "sublist opt (t @ [comma, blank] @ butlast opt)"
      by (metis sublist_order.order.trans sublist_append_rightI)
    with assms(1) ns show False by (simp add: butlast_append)
  qed
  with tr have nh: "\<not> hasOptionToken t opt" using hasOptionToken_sublist by fastforce
  have add: "addOptionToken t opt = t @ [comma, blank] @ opt"
    using assms(1) False tr nh strip_trailing_comma_fixed [OF st]
    by (simp add: addOptionToken_def Let_def)
  have trr: "trim (t @ [comma, blank] @ opt) = t @ [comma, blank] @ opt"
    using tr False assms by (intro trimmed_append) simp_all
  have "removeOptionToken (t @ [comma, blank] @ opt) opt
          = tidy (remove_elsewhere opt (remove_at_start opt (t @ [comma, blank] @ opt)))"
    using assms(1) trr by (simp add: removeOptionToken_def Let_def)
  also have "\<dots> = tidy (remove_elsewhere opt (t @ [comma, blank] @ opt))"
    using remove_at_start_appended [OF ns] by simp
  also have "\<dots> = tidy t"
    using remove_elsewhere_appended [OF assms(1) hd ns] by simp
  finally show ?thesis using add assms(3) by simp
qed

text \<open>
  C2 as stated (on then off gives back exactly the starting text, for every category,
  index and text) fails when the text is not in the form that the remover's tidy-up
  leaves (here two blanks after a comma), when the option is in the text already, so
  that ticking changes nothing and unticking removes it, and when the option ends in
  white space, so that the remover does not find it in the trimmed text.
\<close>

theorem toggle_on_off_counterexample:
  "text_of (snd (applyLeftToggle
      (fst (applyLeftToggle
              (style_category [js ''a''] [])
              (Some (entry (js ''x,  y'') True [] (js ''x,  y'')))
              0 True))
      (snd (applyLeftToggle
              (style_category [js ''a''] [])
              (Some (entry (js ''x,  y'') True [] (js ''x,  y'')))
              0 True))
      0 False)) = js ''x, y'' \<and>
   text_of (snd (applyLeftToggle
      (fst (applyLeftToggle
              (style_category [js ''a''] [0])
              (Some (entry (js ''a'') True [] (js ''a'')))
              0 True))
      (snd (applyLeftToggle
              (style_category [js ''a''] [0])
              (Some (entry (js ''a'') True [] (js ''a'')))
              0 True))
      0 False)) = [] \<and>
   text_of (snd (applyLeftToggle
      (fst (applyLeftToggle
              (style_category [js ''a ''] [])
              (Some (entry (js ''x'') True [] (js ''x'')))
              0 True))
      (snd (applyLeftToggle
              (style_category [js ''a ''] [])
              (Some (entry (js ''x'') True [] (js ''x'')))
              0 True))
      0 False)) = js ''x, a''"
  by (simp add: applyLeftToggle_def Let_def reconcileSelectionFromText_def token_eval)

text \<open>
  C2, amended: ticking and then at once unticking the checkbox of index \<open>idx\<close> returns
  the category's text to exactly the text \<open>t\<close> it started from when the index has no
  option or an empty one (both toggles then return early), and otherwise whenever the
  option has no leading or trailing white space, \<open>t\<close> is in the form that the remover's
  tidy-up leaves unchanged, and either \<open>t\<close> is empty or the option occurs in \<open>t\<close>, a
  comma, a blank and the option only as the final characters.
\<close>

theorem toggle_on_off_roundtrip:
  assumes "idx < length (options cat) \<and> options cat ! idx \<noteq> [] \<Longrightarrow>
     trim (options cat ! idx) = options cat ! idx \<and>
     tidy (text_of existing) = text_of existing \<and>
     (text_of existing = [] \<or>
      \<not> sublist (options cat ! idx)
           (butlast (text_of existing @ [comma, blank] @ options cat ! idx)))"
  shows "text_of (snd (applyLeftToggle
      (fst (applyLeftToggle cat existing idx True))
      (snd (applyLeftToggle cat existing idx True)) idx False)) = text_of existing"
proof (cases "idx < length (options cat) \<and> options cat ! idx \<noteq> []")
  case False
  then show ?thesis by (simp add: toggle_invalid)
next
  case True
  with assms have
    "removeOptionToken (addOptionToken (text_of existing) (options cat ! idx)) (options cat ! idx)
       = text_of existing"
    by (intro remove_after_add) simp_all
  with True show ?thesis by (simp add: toggle_valid Let_def)
qed

text \<open>
  C2, amended, at the scenario of the options \<open>brutalist\<close> and \<open>neo-futurist, glassy\<close>:
  from the text \<open>brutalist\<close>, ticking index 1 gives \<open>brutalist, neo-futurist, glassy\<close>
  and unticking it gives \<open>brutalist\<close> back.
\<close>

theorem toggle_on_off_roundtrip_witness:
  "(1::nat) < length [js ''brutalist'', js ''neo-futurist, glassy''] \<and>
   js ''neo-futurist, glassy'' \<noteq> [] \<and>
   trim (js ''neo-futurist, glassy'') = js ''neo-futurist, glassy'' \<and>
   tidy (js ''brutalist'') = js ''brutalist'' \<and>
   \<not> sublist (js ''neo-futurist, glassy'')
        (butlast (js ''brutalist'' @ [comma, blank] @ js ''neo-futurist, glassy'')) \<and>
   text_of (snd (applyLeftToggle
      (style_category [js ''brutalist'', js ''neo-futurist, glassy''] [0])
      (Some (entry (js ''brutalist'') True [[]] (js ''brutalist'')))
      1 True)) = js ''brutalist, neo-futurist, glassy'' \<and>
   text_of (snd (applyLeftToggle
      (fst (applyLeftToggle
         (style_category [js ''brutalist'', js ''neo-futurist, glassy''] [0])
         (Some (entry (js ''brutalist'') True [[]] (js ''brutalist'')))
         1 True))
      (snd (applyLeftToggle
         (style_category [js ''brutalist'', js ''neo-futurist, glassy''] [0])
         (Some (entry (js ''brutalist'') True [[]] (js ''brutalist'')))
         1 True))
      1 False)) = js ''brutalist''"
proof -
  have h1: "trim (js ''neo-futurist, glassy'') = js ''neo-futurist, glassy''"
    by (simp add: token_eval)
  have h2: "tidy (js ''brutalist'') = js ''brutalist''"
    by (simp add: token_eval)
  have h3: "\<not> sublist (js ''neo-futurist, glassy'')
        (butlast (js ''brutalist'' @ [comma, blank] @ js ''neo-futurist, glassy''))"
    by (simp add: js_def comma_def blank_def sublist_code)
  have h4: "js ''neo-futurist, glassy'' \<noteq> []" by (simp add: js_def)
  have a: "addOptionToken (js ''brutalist'') (js ''neo-futurist, glassy'')
             = js ''brutalist, neo-futurist, glassy''"
    by (simp add: token_eval)
  show ?thesis
    using h1 h2 h3 h4 a
      toggle_on_off_roundtrip
        [where idx = 1
           and cat = "style_category [js ''brutalist'', js ''neo-futurist, glassy''] [0]"
           and existing = "Some (entry (js ''brutalist'') True [[]] (js ''brutalist''))"]
    by (simp add: toggle_valid Let_def)
qed

subsection \<open>Applying a mutator twice\<close>

lemma remove_elsewhere_absent:
  "\<not> sublist opt s \<Longrightarrow> remove_elsewhere opt s = s"
proof (induction s)
  case Nil
  then show ?case by simp
next
  case (Cons c cs)
  from Cons.prems have ns: "\<not> sublist opt cs" by (simp add: sublist_Cons_right)
  have "ws_lit opt cs = None"
  proof (rule ccontr)
    assume "ws_lit opt cs \<noteq> None"
    then obtain r where "ws_lit opt cs = Some r" by auto
    then obtain ws where "cs = ws @ opt @ r" using ws_lit_SomeD by blast
    then have "sublist opt cs" by simp
    with ns show False by simp
  qed
  with Cons.IH [OF ns] show ?case by simp
qed

lemma remove_at_start_absent:
  "\<not> sublist opt s \<Longrightarrow> remove_at_start opt s = s"
proof -
  assume ns: "\<not> sublist opt s"
  have "lit opt s = None"
  proof (rule ccontr)
    assume "lit opt s \<noteq> None"
    then obtain r where "s = opt @ r" by (auto simp: lit_Some_iff)
    then have "sublist opt s" by simp
    with ns show False by simp
  qed
  then show ?thesis by (simp add: remove_at_start_def)
qed

lemma remove_absent:
  assumes "trim r = r"
  shows "opt = [] \<or> \<not> sublist opt r \<Longrightarrow> removeOptionToken r opt = (if r = [] \<or> opt = [] then r else tidy r)"
  using assms
  by (auto simp: removeOptionToken_def Let_def remove_at_start_absent remove_elsewhere_absent)

lemma remove_trimmed: "trim (removeOptionToken t opt) = removeOptionToken t opt"
  by (simp add: removeOptionToken_def Let_def tidy_def)

lemma tidy_Nil [simp]: "tidy [] = []"
  by (simp add: tidy_def strip_leading_sep_def)

text \<open>
  C4 as stated fails in both halves: adding an option with trailing or leading white
  space twice appends it twice; removing \<open>a\<close> from \<open>a, a\<close> twice removes more than
  removing it once; and the tidy-up is a single pass, so removing the absent option \<open>q\<close>
  from two commas, a blank and \<open>x\<close> leaves a leading comma that the second removal
  strips.
\<close>

theorem mutators_idempotent_counterexample:
  "addOptionToken (addOptionToken [] (js ''a '')) (js ''a '') \<noteq> addOptionToken [] (js ''a '') \<and>
   addOptionToken (addOptionToken [] (js '' a'')) (js '' a'') \<noteq> addOptionToken [] (js '' a'') \<and>
   removeOptionToken (removeOptionToken (js ''a, a'') (js ''a'')) (js ''a'')
     \<noteq> removeOptionToken (js ''a, a'') (js ''a'') \<and>
   removeOptionToken (js '',, x'') (js ''q'') = js '', x'' \<and>
   removeOptionToken (removeOptionToken (js '',, x'') (js ''q'')) (js ''q'') = js ''x''"
  by (simp add: token_eval)

text \<open>
  C4, amended: \<open>addOptionToken\<close> is idempotent for every text and every option without
  leading or trailing white space (the empty option included). \<open>removeOptionToken\<close> is
  idempotent for the empty option, and for every other option whenever the result of
  the first removal no longer contains the option as a substring and is left unchanged
  by the tidy-up; when the result no longer contains the option, a second removal is
  exactly one more tidy-up of it.
\<close>

theorem mutators_idempotent:
  "(trim opt = opt \<longrightarrow>
      addOptionToken (addOptionToken t opt) opt = addOptionToken t opt) \<and>
   (opt = [] \<or>
    (\<not> sublist opt (removeOptionToken t opt) \<and>
     tidy (removeOptionToken t opt) = removeOptionToken t opt) \<longrightarrow>
      removeOptionToken (removeOptionToken t opt) opt = removeOptionToken t opt) \<and>
   (opt \<noteq> [] \<and> \<not> sublist opt (removeOptionToken t opt) \<longrightarrow>
      removeOptionToken (removeOptionToken t opt) opt = tidy (removeOptionToken t opt))"
proof (intro conjI impI)
  assume tr: "trim opt = opt"
  show "addOptionToken (addOptionToken t opt) opt = addOptionToken t opt"
  proof (cases "opt = []")
    case True
    then show ?thesis by (simp add: addOptionToken_def Let_def)
  next
    case False
    with tr have "hasOptionToken (addOptionToken t opt) opt" by (simp add: add_then_has)
    then have "addOptionToken (addOptionToken t opt) opt = trim (addOptionToken t opt)"
      by (rule add_present)
    with tr show ?thesis by (simp add: add_trimmed)
  qed
next
  assume a: "opt = [] \<or>
    (\<not> sublist opt (removeOptionToken t opt) \<and>
     tidy (removeOptionToken t opt) = removeOptionToken t opt)"
  then show "removeOptionToken (removeOptionToken t opt) opt = removeOptionToken t opt"
    using remove_absent [OF remove_trimmed, of opt t] by auto
next
  assume a: "opt \<noteq> [] \<and> \<not> sublist opt (removeOptionToken t opt)"
  then show "removeOptionToken (removeOptionToken t opt) opt = tidy (removeOptionToken t opt)"
    using remove_absent [OF remove_trimmed, of opt t] by auto
qed

text \<open>
  C4, amended, at the text \<open>x\<close> with the option \<open>a, b\<close> added, and at the text
  \<open>x, a, y\<close> with the option \<open>a\<close> removed.
\<close>

theorem mutators_idempotent_witness:
  "trim (js ''a, b'') = js ''a, b'' \<and>
   addOptionToken (js ''x'') (js ''a, b'') = js ''x, a, b'' \<and>
   addOptionToken (addOptionToken (js ''x'') (js ''a, b'')) (js ''a, b'') = js ''x, a, b'' \<and>
   removeOptionToken (js ''x, a, y'') (js ''a'') = js ''x, y'' \<and>
   js ''a'' \<noteq> [] \<and> \<not> sublist (js ''a'') (js ''x, y'') \<and> tidy (js ''x, y'') = js ''x, y'' \<and>
   removeOptionToken (removeOptionToken (js ''x, a, y'') (js ''a'')) (js ''a'') = js ''x, y''"
proof -
  have h: "trim (js ''a, b'') = js ''a, b''" by (simp add: token_eval)
  have a: "addOptionToken (js ''x'') (js ''a, b'') = js ''x, a, b''" by (simp add: token_eval)
  have r: "removeOptionToken (js ''x, a, y'') (js ''a'') = js ''x, y''" by (simp add: token_eval)
  have s: "\<not> sublist (js ''a'') (js ''x, y'')" by (simp add: js_def sublist_code)
  have d: "tidy (js ''x, y'') = js ''x, y''" by (simp add: token_eval)
  have n: "js ''a'' \<noteq> []" by (simp add: js_def)
  show ?thesis
    using h a r s d n
      mutators_idempotent [of "js ''a, b''" "js ''x''"]
      mutators_idempotent [of "js ''a''" "js ''x, a, y''"]
    by simp
qed

end
